theory Spec2Isabelle
  imports Main "HOL-Library.Sublist"
begin

section \<open>Dynamic objects\<close>

text \<open>
  Modelled from the spec: the DOH object library (\<^verbatim>\<open>Getattr\<close>, \<^verbatim>\<open>Setattr\<close>, \<^verbatim>\<open>Delattr\<close>,
  \<^verbatim>\<open>Replace\<close>, \<^verbatim>\<open>NewStringf\<close>) is not part of \<^verbatim>\<open>typemap.c\<close>. The spec calls it
  a generic dynamic-object container used for hash and list storage, with string-keyed
  attribute bags. \<^verbatim>\<open>typemap.c\<close> keeps everything in such objects: strings, parameter
  lists and hash tables keyed by strings. A hash table is an association list; a null
  pointer is \<open>None\<close>; a parameter list is the list of its nodes in \<^verbatim>\<open>nextSibling\<close> order,
  the null list being \<open>[]\<close>.
\<close>

record parm =
  p_type :: string
  p_name :: "string option"
  p_lname :: "string option"
  p_value :: "string option"

datatype doh =
    DStr string
  | DParms "parm list"
  | DHash "(string \<times> doh) list"

text \<open>\<^verbatim>\<open>Getattr\<close>: the value under a key; null when the key is absent or the object is no hash.\<close>

fun Getattr :: "doh \<Rightarrow> string \<Rightarrow> doh option" where
  "Getattr (DHash kvs) k = map_of kvs k"
| "Getattr (DStr s) k = None"
| "Getattr (DParms ps) k = None"

text \<open>\<^verbatim>\<open>Setattr\<close>: replaces the value under a key or adds the key; no effect on an object that
  is no hash.\<close>

fun upd :: "string \<Rightarrow> doh \<Rightarrow> (string \<times> doh) list \<Rightarrow> (string \<times> doh) list" where
  "upd k v [] = [(k, v)]"
| "upd k v ((k', v') # kvs) = (if k' = k then (k, v) # kvs else (k', v') # upd k v kvs)"

fun Setattr :: "doh \<Rightarrow> string \<Rightarrow> doh \<Rightarrow> doh" where
  "Setattr (DHash kvs) k v = DHash (upd k v kvs)"
| "Setattr (DStr s) k v = DStr s"
| "Setattr (DParms ps) k v = DParms ps"

text \<open>\<^verbatim>\<open>Delattr\<close>: removes a key.\<close>

fun Delattr :: "doh \<Rightarrow> string \<Rightarrow> doh" where
  "Delattr (DHash kvs) k = DHash (filter (\<lambda>kv. fst kv \<noteq> k) kvs)"
| "Delattr (DStr s) k = DStr s"
| "Delattr (DParms ps) k = DParms ps"

text \<open>The same on a pointer that may be null.\<close>

definition Getattr_p :: "doh option \<Rightarrow> string \<Rightarrow> doh option" where
  "Getattr_p obj k = (case obj of None \<Rightarrow> None | Some h \<Rightarrow> Getattr h k)"

text \<open>\<^verbatim>\<open>"%s"\<close> of a name that may be null: a null object prints as the empty string.\<close>

definition fmt_s :: "string option \<Rightarrow> string" where
  "fmt_s x = (case x of None \<Rightarrow> [] | Some s \<Rightarrow> s)"

text \<open>\<^verbatim>\<open>"%d"\<close>: a C \<^verbatim>\<open>int\<close> in decimal.\<close>

fun digits :: "nat \<Rightarrow> string" where
  "digits n =
     (if n < 10 then [''0123456789'' ! n]
      else digits (n div 10) @ [''0123456789'' ! (n mod 10)])"

declare digits.simps [simp del]

definition fmt_d :: "int \<Rightarrow> string" where
  "fmt_d i = (if i < 0 then CHR ''-'' # digits (nat (- i)) else digits (nat i))"

text \<open>\<^verbatim>\<open>strstr(s, t) != NULL\<close>: \<open>t\<close> occurs in \<open>s\<close>.\<close>

fun strstr :: "string \<Rightarrow> string \<Rightarrow> bool" where
  "strstr [] t = (t = [])"
| "strstr (c # cs) t = (prefix t (c # cs) \<or> strstr cs t)"


section \<open>The type utilities\<close>

text \<open>
  The \<^verbatim>\<open>SwigType_*\<close> functions are outside \<^verbatim>\<open>typemap.c\<close>, which treats type strings as
  opaque; they are parameters of the model. Those that change their argument in place
  give the changed string.
\<close>

record typeutils =
  SwigType_isarray :: "string \<Rightarrow> bool"
  SwigType_array_ndim :: "string \<Rightarrow> int"
  SwigType_array_setdim :: "string \<Rightarrow> int \<Rightarrow> string \<Rightarrow> string"
  SwigType_array_getdim :: "string \<Rightarrow> int \<Rightarrow> string"
  SwigType_strip_qualifiers :: "string \<Rightarrow> string"
  SwigType_typedef_resolve :: "string \<Rightarrow> string option"
  SwigType_default :: "string \<Rightarrow> string"
  SwigType_str :: "string \<Rightarrow> string option \<Rightarrow> string"
  SwigType_ltype :: "string \<Rightarrow> string"
  SwigType_manglestr :: "string \<Rightarrow> string"
  SwigType_ispointer :: "string \<Rightarrow> bool"
  SwigType_del_pointer :: "string \<Rightarrow> string"
  SwigType_add_pointer :: "string \<Rightarrow> string"
  SwigType_base :: "string \<Rightarrow> string"

section \<open>The scope stack\<close>

text \<open>
  \<^verbatim>\<open>static Hash *typemaps[MAX_SCOPE]; static int tm_scope = 0;\<close>
  The array is a list of \<open>MAX_SCOPE\<close> pointers and \<open>tm_scope\<close> the index of the current
  scope. A read outside the array gives null here, and a write outside the array leaves
  the array as it is: C defines neither.
\<close>

definition MAX_SCOPE :: int where
  "MAX_SCOPE = 32"

record state =
  typemaps :: "doh option list"
  tm_scope :: int

definition scope_at :: "state \<Rightarrow> int \<Rightarrow> doh option" where
  "scope_at st i =
     (if 0 \<le> i \<and> nat i < length (typemaps st) then typemaps st ! nat i else None)"

definition set_scope :: "state \<Rightarrow> int \<Rightarrow> doh option \<Rightarrow> state" where
  "set_scope st i v =
     (if 0 \<le> i then st\<lparr>typemaps := (typemaps st)[nat i := v]\<rparr> else st)"

text \<open>The scopes in use, bottom first: \<open>typemaps[0 .. tm_scope]\<close>.\<close>

definition scope_stack :: "state \<Rightarrow> doh option list" where
  "scope_stack st = take (nat (tm_scope st + 1)) (typemaps st)"

definition Swig_typemap_init :: state where
  "Swig_typemap_init =
     \<lparr>typemaps = (replicate (nat MAX_SCOPE) None)[0 := Some (DHash [])], tm_scope = 0\<rparr>"

definition tmop_name :: "string \<Rightarrow> string" where
  "tmop_name op = ''tmap:'' @ op"

definition Swig_typemap_new_scope :: "state \<Rightarrow> state" where
  "Swig_typemap_new_scope st =
     set_scope (st\<lparr>tm_scope := tm_scope st + 1\<rparr>) (tm_scope st + 1) (Some (DHash []))"

definition Swig_typemap_pop_scope :: "state \<Rightarrow> doh option \<times> state" where
  "Swig_typemap_pop_scope st =
     (if tm_scope st > 0
      then (scope_at st (tm_scope st), st\<lparr>tm_scope := tm_scope st - 1\<rparr>)
      else (None, st))"

section \<open>The registrar\<close>

text \<open>
  The operator key that encodes one more leading argument:
  \<^verbatim>\<open>NewStringf("%s-%s+%s:", op, type, pname)\<close>.
\<close>

definition newop :: "string \<Rightarrow> parm \<Rightarrow> string" where
  "newop op p = op @ ''-'' @ p_type p @ ''+'' @ fmt_s (p_name p) @ '':''"

text \<open>
  The attributes written on the node of the last argument:
  \<^verbatim>\<open>code\<close>, \<^verbatim>\<open>type\<close>, \<^verbatim>\<open>typemap\<close>, \<^verbatim>\<open>pname\<close> when there is a name, \<^verbatim>\<open>locals\<close>, \<^verbatim>\<open>kwargs\<close>.
\<close>

definition set_typemap_attrs ::
  "typeutils \<Rightarrow> doh \<Rightarrow> string \<Rightarrow> parm \<Rightarrow> string \<Rightarrow>
   parm list \<Rightarrow> parm list \<Rightarrow> doh" where
  "set_typemap_attrs tu tm2 op p code locals kwargs =
     (let a1 = Setattr tm2 ''code'' (DStr code);
          a2 = Setattr a1 ''type'' (DStr (p_type p));
          a3 = Setattr a2 ''typemap''
                 (DStr (''typemap('' @ op @ '') '' @ SwigType_str tu (p_type p) (p_name p)));
          a4 = (case p_name p of None \<Rightarrow> a3 | Some n \<Rightarrow> Setattr a3 ''pname'' (DStr n));
          a5 = Setattr a4 ''locals'' (DParms locals)
      in Setattr a5 ''kwargs'' (DParms kwargs))"

text \<open>
  One level of \<^verbatim>\<open>Swig_typemap_register_multi\<close>: find or make the node of the type in the
  current scope, below it the node of the name when there is one, below that the node
  of the operator; the attributes are written when \<open>final\<close> (no argument follows).
  The C code changes the nodes in place; here the changed nodes are stored back along
  the path.
\<close>

definition register_node ::
  "typeutils \<Rightarrow> doh \<Rightarrow> string \<Rightarrow> parm \<Rightarrow> bool \<Rightarrow> string \<Rightarrow>
   parm list \<Rightarrow> parm list \<Rightarrow> doh" where
  "register_node tu scope op p final code locals kwargs =
     (let tmop = tmop_name op;
          tm = (case Getattr scope (p_type p) of None \<Rightarrow> DHash [] | Some t \<Rightarrow> t);
          tm1 = (case p_name p of
                   None \<Rightarrow> tm
                 | Some n \<Rightarrow> (case Getattr tm n of None \<Rightarrow> DHash [] | Some t \<Rightarrow> t));
          tm2 = (case Getattr tm1 tmop of None \<Rightarrow> DHash [] | Some t \<Rightarrow> t);
          tm2' = (if final then set_typemap_attrs tu tm2 op p code locals kwargs else tm2);
          tm1' = Setattr tm1 tmop tm2';
          tm' = (case p_name p of None \<Rightarrow> tm1' | Some n \<Rightarrow> Setattr tm n tm1')
      in Setattr scope (p_type p) tm')"

definition register_level ::
  "typeutils \<Rightarrow> state \<Rightarrow> string \<Rightarrow> parm \<Rightarrow> bool \<Rightarrow> string \<Rightarrow> parm list \<Rightarrow> parm list \<Rightarrow> state"
where
  "register_level tu st op p final code locals kwargs =
     (case scope_at st (tm_scope st) of
        None \<Rightarrow> st
      | Some scope \<Rightarrow>
          set_scope st (tm_scope st)
            (Some (register_node tu scope op p final code locals kwargs)))"

text \<open>
  \<^verbatim>\<open>Swig_typemap_register_multi\<close>: nothing for the null list; else the level of the first
  parameter, and the call on the remaining parameters under the new operator key.
\<close>

fun Swig_typemap_register_multi ::
  "typeutils \<Rightarrow> state \<Rightarrow> string \<Rightarrow> parm list \<Rightarrow> string \<Rightarrow> parm list \<Rightarrow> parm list \<Rightarrow> state"
where
  "Swig_typemap_register_multi tu st op [] code locals kwargs = st"
| "Swig_typemap_register_multi tu st op (p # np) code locals kwargs =
     (let st1 = register_level tu st op p (np = []) code locals kwargs
      in if np \<noteq> []
         then Swig_typemap_register_multi tu st1 (newop op p) np code locals kwargs
         else st1)"

text \<open>\<^verbatim>\<open>Swig_typemap_get\<close>: the node of a type, or of a type and a non-empty name, in one scope.\<close>

definition Swig_typemap_get :: "state \<Rightarrow> string \<Rightarrow> string option \<Rightarrow> int \<Rightarrow> doh option" where
  "Swig_typemap_get st type name scope =
     (if scope < 0 \<or> scope > tm_scope st then None
      else (case Getattr_p (scope_at st scope) type of
              None \<Rightarrow> None
            | Some tm \<Rightarrow>
                (case name of
                   None \<Rightarrow> Some tm
                 | Some n \<Rightarrow> if n \<noteq> [] then Getattr tm n else Some tm)))"

text \<open>
  \<^verbatim>\<open>Swig_typemap_copy_multi\<close>. The inner loop walks the source parameters in one scope
  and gives whether it reached the end of the list together with the last node found;
  the outer loop goes down the scopes. The result is the returned \<^verbatim>\<open>int\<close> and the store.
  The first test is \<^verbatim>\<open>if (Len(parms) != Len(srcparms)) return -1;\<close> where \<^verbatim>\<open>Len\<close>, the
  length function of the object library, is outside \<^verbatim>\<open>typemap.c\<close>: it is a parameter of
  the model. It is handed the two lists as the function has them, by their heads.
\<close>

fun copy_walk ::
  "state \<Rightarrow> int \<Rightarrow> parm list \<Rightarrow> string \<Rightarrow> doh option \<Rightarrow> bool \<times> doh option" where
  "copy_walk st ts [] tmops tm = (True, tm)"
| "copy_walk st ts (p # ps) tmops tm =
     (case Swig_typemap_get st (p_type p) (p_name p) ts of
        None \<Rightarrow> (False, None)
      | Some tm1 \<Rightarrow>
          (case Getattr tm1 tmops of
             None \<Rightarrow> (False, None)
           | Some tm2 \<Rightarrow> copy_walk st ts ps (newop tmops p) (Some tm2)))"

definition str_of :: "doh option \<Rightarrow> string" where
  "str_of d = (case d of Some (DStr s) \<Rightarrow> s | _ \<Rightarrow> [])"

definition parms_of :: "doh option \<Rightarrow> parm list" where
  "parms_of d = (case d of Some (DParms ps) \<Rightarrow> ps | _ \<Rightarrow> [])"

function copy_scopes ::
  "typeutils \<Rightarrow> state \<Rightarrow> string \<Rightarrow> parm list \<Rightarrow> parm list \<Rightarrow>
   int \<Rightarrow> doh option \<Rightarrow> int \<times> state" where
  "copy_scopes tu st op srcparms parms ts tm =
     (if ts \<ge> 0
      then (case copy_walk st ts srcparms (tmop_name op) tm of
              (True, Some tmh) \<Rightarrow>
                (0, Swig_typemap_register_multi tu st op parms
                      (str_of (Getattr tmh ''code'')) (parms_of (Getattr tmh ''locals''))
                      (parms_of (Getattr tmh ''kwargs'')))
            | (_, tm') \<Rightarrow> copy_scopes tu st op srcparms parms (ts - 1) tm')
      else (- 1, st))"
  by pat_completeness auto
termination
  by (relation "measure (\<lambda>(tu, st, op, srcparms, parms, ts, tm). nat (ts + 1))") auto

declare copy_scopes.simps [simp del]

definition Swig_typemap_copy_multi ::
  "typeutils \<Rightarrow> (parm list \<Rightarrow> int) \<Rightarrow> state \<Rightarrow> string \<Rightarrow> parm list \<Rightarrow> parm list \<Rightarrow>
   int \<times> state" where
  "Swig_typemap_copy_multi tu Len st op srcparms parms =
     (if Len parms \<noteq> Len srcparms then (- 1, st)
      else copy_scopes tu st op srcparms parms (tm_scope st) None)"

section \<open>The lookup engine\<close>

text \<open>\<^verbatim>\<open>strip_arrays\<close>: every dimension of a copy of the type is set to \<^verbatim>\<open>ANY\<close>.\<close>

function strip_arrays_loop :: "typeutils \<Rightarrow> string \<Rightarrow> int \<Rightarrow> int \<Rightarrow> string" where
  "strip_arrays_loop tu t i ndim =
     (if i < ndim
      then strip_arrays_loop tu (SwigType_array_setdim tu t i ''ANY'') (i + 1) ndim
      else t)"
  by pat_completeness auto
termination
  by (relation "measure (\<lambda>(tu, t, i, ndim). nat (ndim - i))") auto

declare strip_arrays_loop.simps [simp del]

definition strip_arrays :: "typeutils \<Rightarrow> string \<Rightarrow> string" where
  "strip_arrays tu type = strip_arrays_loop tu type 0 (SwigType_array_ndim tu type)"

definition has_code :: "doh \<Rightarrow> bool" where
  "has_code r = (Getattr r ''code'' \<noteq> None)"

text \<open>
  \<^verbatim>\<open>if (result && Getattr(result,"code")) goto ret_result; if (result) backup = result;\<close>
  \<open>Inl\<close> is the jump to \<^verbatim>\<open>ret_result\<close> with the result, \<open>Inr\<close> goes on with the backup.
\<close>

definition keep_result :: "doh option \<Rightarrow> doh option \<Rightarrow> doh + doh option" where
  "keep_result result backup =
     (case result of
        None \<Rightarrow> Inr backup
      | Some r \<Rightarrow> if has_code r then Inl r else Inr (Some r))"

text \<open>The method entry below the name node of a type node, null without name or name node.\<close>

definition named_result :: "doh \<Rightarrow> string option \<Rightarrow> string \<Rightarrow> doh option" where
  "named_result tm cname tmop =
     (case cname of
        None \<Rightarrow> None
      | Some n \<Rightarrow> (case Getattr tm n of None \<Rightarrow> None | Some tm1 \<Rightarrow> Getattr tm1 tmop))"

text \<open>
  The two tests made on a type node \<open>tm\<close>, first with the name, then on the type alone.
  The search makes them on the node of the type and again on the node of the type with
  its dimensions stripped.
\<close>

definition probe :: "doh option \<Rightarrow> string option \<Rightarrow> string \<Rightarrow> doh option \<Rightarrow> doh + doh option" where
  "probe tm cname tmop backup =
     (case tm of
        None \<Rightarrow> Inr backup
      | Some tmh \<Rightarrow>
          (case keep_result (named_result tmh cname tmop) backup of
             Inl result \<Rightarrow> Inl result
           | Inr backup1 \<Rightarrow> keep_result (Getattr tmh tmop) backup1))"

text \<open>The tests on the node of the default type: any entry wins, with code or without.\<close>

definition probe_default :: "doh option \<Rightarrow> string option \<Rightarrow> string \<Rightarrow> doh option" where
  "probe_default tm cname tmop =
     (case tm of
        None \<Rightarrow> None
      | Some tmh \<Rightarrow>
          (case named_result tmh cname tmop of
             Some result \<Rightarrow> Some result
           | None \<Rightarrow> Getattr tmh tmop))"

text \<open>
  The tests of one round of the loop \<^verbatim>\<open>while (ctype)\<close>: on the node of \<open>ctype\<close>, and for
  an array type on the node of \<open>noarrays\<close>, which is computed from \<open>ctype\<close> the first
  time and kept afterwards. \<open>Inl\<close> is the jump to \<^verbatim>\<open>ret_result\<close>, \<open>Inr\<close> gives \<open>noarrays\<close>
  and \<open>backup\<close> after the tests.
\<close>

definition probe_ctype ::
  "typeutils \<Rightarrow> doh option \<Rightarrow> string option \<Rightarrow> string \<Rightarrow> bool \<Rightarrow> string \<Rightarrow>
   string option \<Rightarrow> doh option \<Rightarrow> doh + string option \<times> doh option" where
  "probe_ctype tu scope cname tmop isarray ctype noarrays backup =
     (case probe (Getattr_p scope ctype) cname tmop backup of
        Inl result \<Rightarrow> Inl result
      | Inr backup1 \<Rightarrow>
          if isarray
          then (let a = (case noarrays of None \<Rightarrow> strip_arrays tu ctype | Some a \<Rightarrow> a)
                in case probe (Getattr_p scope a) cname tmop backup1 of
                     Inl result \<Rightarrow> Inl result
                   | Inr backup2 \<Rightarrow> Inr (Some a, backup2))
          else Inr (noarrays, backup1))"

text \<open>
  The loop \<^verbatim>\<open>while (ctype)\<close> of \<^verbatim>\<open>Swig_typemap_search\<close> in one scope. After the tests, a
  type that has not just been stripped has its qualifiers stripped, and the loop goes
  on with the stripped type if that differs; else one typedef level is resolved. \<open>unstripped\<close>
  says that \<open>ctype\<close> is the result of stripping. The loop ends when
  \<^verbatim>\<open>SwigType_typedef_resolve\<close> gives null, which depends on the type utilities: \<open>None\<close>
  is a loop that never ends, \<open>Some (Inl r)\<close> the jump to \<^verbatim>\<open>ret_result\<close>,
  \<open>Some (Inr (noarrays, backup))\<close> the normal end of the loop.
\<close>

partial_function (option) search_ctypes ::
  "typeutils \<Rightarrow> doh option \<Rightarrow> string option \<Rightarrow> string \<Rightarrow> bool \<Rightarrow>
   string \<Rightarrow> bool \<Rightarrow> string option \<Rightarrow> doh option \<Rightarrow>
   (doh + string option \<times> doh option) option"
where
  "search_ctypes tu scope cname tmop isarray ctype unstripped noarrays backup =
     (case probe_ctype tu scope cname tmop isarray ctype noarrays backup of
        Inl result \<Rightarrow> Some (Inl result)
      | Inr (noarrays1, backup1) \<Rightarrow>
          if \<not> unstripped \<and> SwigType_strip_qualifiers tu ctype \<noteq> ctype
          then search_ctypes tu scope cname tmop isarray
                 (SwigType_strip_qualifiers tu ctype) True noarrays1 backup1
          else (case SwigType_typedef_resolve tu ctype of
                  None \<Rightarrow> Some (Inr (noarrays1, backup1))
                | Some ctype' \<Rightarrow>
                    search_ctypes tu scope cname tmop isarray ctype' False
                      noarrays1 backup1))"

text \<open>The loop \<^verbatim>\<open>while (ts >= 0)\<close> over the scopes, from the current one down.\<close>

function search_scopes ::
  "typeutils \<Rightarrow> state \<Rightarrow> string option \<Rightarrow> string \<Rightarrow> string \<Rightarrow> bool \<Rightarrow>
   int \<Rightarrow> string option \<Rightarrow> doh option \<Rightarrow> doh option option"
where
  "search_scopes tu st cname tmop type isarray ts noarrays backup =
     (if ts \<ge> 0
      then (case search_ctypes tu (scope_at st ts) cname tmop isarray type False
                   noarrays backup of
              None \<Rightarrow> None
            | Some (Inl result) \<Rightarrow> Some (Some result)
            | Some (Inr (noarrays1, backup1)) \<Rightarrow>
                (case probe_default (Getattr_p (scope_at st ts) (SwigType_default tu type))
                        cname tmop of
                   Some result \<Rightarrow> Some (Some result)
                 | None \<Rightarrow>
                     search_scopes tu st cname tmop type isarray (ts - 1) noarrays1 backup1))
      else Some backup)"
  by pat_completeness auto
termination
  by (relation "measure (\<lambda>(tu, st, cname, tmop, type, isarray, ts, noarrays, backup).
                  nat (ts + 1))") auto

declare search_scopes.simps [simp del]

text \<open>
  \<^verbatim>\<open>Swig_typemap_search\<close>: \<open>None\<close> when the search never returns, \<open>Some None\<close> for the null
  result, \<open>Some (Some e)\<close> for the entry \<open>e\<close>.
\<close>

definition Swig_typemap_search ::
  "typeutils \<Rightarrow> state \<Rightarrow> string \<Rightarrow> string \<Rightarrow> string option \<Rightarrow> doh option option" where
  "Swig_typemap_search tu st op type name =
     search_scopes tu st
       (case name of None \<Rightarrow> None | Some n \<Rightarrow> if n \<noteq> [] then Some n else None)
       (tmop_name op) type (SwigType_isarray tu type) (tm_scope st) None None"

text \<open>
  \<^verbatim>\<open>Swig_typemap_search_multi\<close>: the result and the value left in \<^verbatim>\<open>*nmatch\<close>, whose
  value at the call is \<open>nmatch\<close>.
\<close>

fun Swig_typemap_search_multi ::
  "typeutils \<Rightarrow> state \<Rightarrow> string \<Rightarrow> parm list \<Rightarrow> int \<Rightarrow> (doh option \<times> int) option" where
  "Swig_typemap_search_multi tu st op [] nmatch = Some (None, 0)"
| "Swig_typemap_search_multi tu st op (p # np) nmatch =
     (case Swig_typemap_search tu st op (p_type p) (p_name p) of
        None \<Rightarrow> None
      | Some None \<Rightarrow> Some (None, nmatch)
      | Some (Some tm) \<Rightarrow>
          (case Swig_typemap_search_multi tu st (newop op p) np nmatch of
             None \<Rightarrow> None
           | Some (tm1, nmatch1) \<Rightarrow>
               (let tm' = (case tm1 of None \<Rightarrow> tm | Some t \<Rightarrow> t)
                in if has_code tm' then Some (Some tm', nmatch1 + 1)
                   else Some (None, nmatch1))))"

section \<open>The %except directive\<close>

definition Swig_except_register :: "state \<Rightarrow> string \<Rightarrow> state" where
  "Swig_except_register st code =
     (case scope_at st (tm_scope st) of
        None \<Rightarrow> st
      | Some scope \<Rightarrow> set_scope st (tm_scope st) (Some (Setattr scope ''*except*'' (DStr code))))"

text \<open>
  \<^verbatim>\<open>Swig_except_lookup\<close>: the loop counts \<open>ts\<close> down, and each round reads
  \<^verbatim>\<open>typemaps[tm_scope]\<close>.
\<close>

function except_lookup_from :: "state \<Rightarrow> int \<Rightarrow> doh option" where
  "except_lookup_from st ts =
     (if ts \<ge> 0
      then (case Getattr_p (scope_at st (tm_scope st)) ''*except*'' of
              Some s \<Rightarrow> Some s
            | None \<Rightarrow> except_lookup_from st (ts - 1))
      else None)"
  by pat_completeness auto
termination
  by (relation "measure (\<lambda>(st, ts). nat (ts + 1))") auto

declare except_lookup_from.simps [simp del]

definition Swig_except_lookup :: "state \<Rightarrow> doh option" where
  "Swig_except_lookup st = except_lookup_from st (tm_scope st)"

definition Swig_except_clear :: "state \<Rightarrow> state" where
  "Swig_except_clear st =
     (case scope_at st (tm_scope st) of
        None \<Rightarrow> st
      | Some scope \<Rightarrow> set_scope st (tm_scope st) (Some (Delattr scope ''*except*'')))"

section \<open>Variable substitution\<close>














section \<open>Well-formed stores\<close>

text \<open>
  What the functions above keep true of the store: the current scope index is inside
  the array, every scope in use is a hash, every value of a scope is a type node
  (except the string under the key of the %except directive), every value of a type
  node (a name node or a method entry) is a hash, and below those every value under a
  method key is a hash.
\<close>

definition is_hash :: "doh \<Rightarrow> bool" where
  "is_hash d = (case d of DHash kvs \<Rightarrow> True | _ \<Rightarrow> False)"

definition values_ok :: "(string \<Rightarrow> doh \<Rightarrow> bool) \<Rightarrow> doh \<Rightarrow> bool" where
  "values_ok P d = (case d of DHash kvs \<Rightarrow> list_all (\<lambda>(k, v). P k v) kvs | _ \<Rightarrow> False)"

definition method_node_ok :: "doh \<Rightarrow> bool" where
  "method_node_ok d = values_ok (\<lambda>k v. prefix ''tmap:'' k \<longrightarrow> is_hash v) d"

definition type_node_ok :: "doh \<Rightarrow> bool" where
  "type_node_ok d = values_ok (\<lambda>k v. method_node_ok v) d"

definition scope_ok :: "doh \<Rightarrow> bool" where
  "scope_ok d = values_ok (\<lambda>k v. k \<noteq> ''*except*'' \<longrightarrow> type_node_ok v) d"

definition store_ok :: "state \<Rightarrow> bool" where
  "store_ok st =
     (0 \<le> tm_scope st \<and> tm_scope st < MAX_SCOPE \<and> length (typemaps st) = nat MAX_SCOPE \<and>
      list_all (\<lambda>sc. case sc of None \<Rightarrow> False | Some s \<Rightarrow> scope_ok s) (scope_stack st))"

text \<open>A call of \<^verbatim>\<open>Swig_typemap_pop_scope\<close> whose result is dropped.\<close>

definition drop_scope :: "state \<Rightarrow> state" where
  "drop_scope st = snd (Swig_typemap_pop_scope st)"

text \<open>
  The typedef chain that the search follows from a type ends within \<open>n\<close> steps: each
  step strips the qualifiers and resolves one typedef level, until no typedef is left.
\<close>

fun resolves :: "typeutils \<Rightarrow> nat \<Rightarrow> string \<Rightarrow> bool" where
  "resolves tu 0 t = False"
| "resolves tu (Suc n) t =
     (case SwigType_typedef_resolve tu (SwigType_strip_qualifiers tu t) of
        None \<Rightarrow> True
      | Some t' \<Rightarrow> resolves tu n t')"


text \<open>
  The method entry filed in the current scope under a key at the node of a type, or of
  a type and a name, as \<^verbatim>\<open>Swig_typemap_get\<close> finds the node; and the \<^verbatim>\<open>code\<close> attribute of
  an entry, null for the null entry.
\<close>

definition entry_code :: "doh option \<Rightarrow> doh option" where
  "entry_code e = (case e of None \<Rightarrow> None | Some h \<Rightarrow> Getattr h ''code'')"

definition typemap_entry :: "state \<Rightarrow> string \<Rightarrow> string option \<Rightarrow> string \<Rightarrow> doh option" where
  "typemap_entry st type name key =
     (case Swig_typemap_get st type name (tm_scope st) of
        None \<Rightarrow> None
      | Some node \<Rightarrow> Getattr node key)"

text \<open>
  An instance of the type utilities for concrete inputs, on SWIG's encoding of types
  with at most one array dimension (\<^verbatim>\<open>a(10).int\<close>), pointers (\<^verbatim>\<open>p.int\<close>) and a leading
  \<^verbatim>\<open>const\<close> (\<^verbatim>\<open>q(const).int\<close>), with the single typedef of \<^verbatim>\<open>Integer\<close> to \<^verbatim>\<open>int\<close>.
\<close>

definition example_typeutils :: typeutils where
  "example_typeutils =
     \<lparr>SwigType_isarray = (\<lambda>t. prefix ''a('' t),
      SwigType_array_ndim = (\<lambda>t. if prefix ''a('' t then 1 else 0),
      SwigType_array_setdim =
        (\<lambda>t i v. if prefix ''a('' t \<and> i = 0
                  then ''a('' @ v @ dropWhile (\<lambda>c. c \<noteq> CHR '')'') t else t),
      SwigType_array_getdim =
        (\<lambda>t i. if prefix ''a('' t \<and> i = 0
                then takeWhile (\<lambda>c. c \<noteq> CHR '')'') (drop 2 t) else []),
      SwigType_strip_qualifiers = (\<lambda>t. if prefix ''q(const).'' t then drop 9 t else t),
      SwigType_typedef_resolve = (\<lambda>t. if t = ''Integer'' then Some ''int'' else None),
      SwigType_default =
        (\<lambda>t. if prefix ''p.'' t then ''p.SWIGTYPE''
             else if prefix ''a('' t then ''a(ANY).SWIGTYPE'' else ''SWIGTYPE''),
      SwigType_str = (\<lambda>t n. t @ (case n of None \<Rightarrow> [] | Some x \<Rightarrow> CHR '' '' # x)),
      SwigType_ltype = (\<lambda>t. t),
      SwigType_manglestr =
        (\<lambda>t. CHR ''_'' # map (\<lambda>c. if c = CHR ''.'' then CHR ''_'' else c) t),
      SwigType_ispointer = (\<lambda>t. prefix ''p.'' t),
      SwigType_del_pointer = (\<lambda>t. if prefix ''p.'' t then drop 2 t else t),
      SwigType_add_pointer = (\<lambda>t. ''p.'' @ t),
      SwigType_base = (\<lambda>t. rev (takeWhile (\<lambda>c. c \<noteq> CHR ''.'') (rev t)))\<rparr>"

text \<open>
  An instance of the length function for concrete inputs: the length of the object it
  is handed, the head of the list, as the number of attributes that the head holds
  (\<^verbatim>\<open>type\<close>, and each of \<^verbatim>\<open>name\<close>, \<^verbatim>\<open>lname\<close> and \<^verbatim>\<open>value\<close> that is set); 0 for the null list.
\<close>

definition head_len :: "parm list \<Rightarrow> int" where
  "head_len parms =
     (case parms of
        [] \<Rightarrow> 0
      | p # np \<Rightarrow>
          1 + (if p_name p = None then 0 else 1) + (if p_lname p = None then 0 else 1)
            + (if p_value p = None then 0 else 1))"

section \<open>Notions used in the proofs\<close>

text \<open>
  The nodes that one level of the registration finds or makes (the node of the type, of
  the name, of the operator) and the nodes it stores back; the lookup of a method entry
  below a type node; a name as the search uses it (an empty name is no name); and an
  outcome of the loop over the types that has found some entry.
\<close>

definition type_node :: "doh \<Rightarrow> string \<Rightarrow> doh" where
  "type_node scope T = (case Getattr scope T of None \<Rightarrow> DHash [] | Some t \<Rightarrow> t)"

definition name_node :: "doh \<Rightarrow> parm \<Rightarrow> doh" where
  "name_node scope p = (case p_name p of None \<Rightarrow> type_node scope (p_type p)
      | Some n \<Rightarrow> (case Getattr (type_node scope (p_type p)) n of None \<Rightarrow> DHash [] | Some t \<Rightarrow> t))"

definition op_node :: "doh \<Rightarrow> string \<Rightarrow> parm \<Rightarrow> doh" where
  "op_node scope op p = (case Getattr (name_node scope p) (tmop_name op) of None \<Rightarrow> DHash [] | Some t \<Rightarrow> t)"

definition new_op_node :: "typeutils \<Rightarrow> doh \<Rightarrow> string \<Rightarrow> parm \<Rightarrow> bool \<Rightarrow> string \<Rightarrow> parm list \<Rightarrow> parm list \<Rightarrow> doh" where
  "new_op_node tu scope op p final c L K =
     (if final then set_typemap_attrs tu (op_node scope op p) op p c L K else op_node scope op p)"

definition new_type_node :: "typeutils \<Rightarrow> doh \<Rightarrow> string \<Rightarrow> parm \<Rightarrow> bool \<Rightarrow> string \<Rightarrow> parm list \<Rightarrow> parm list \<Rightarrow> doh" where
  "new_type_node tu scope op p final c L K =
     (case p_name p of
        None \<Rightarrow> Setattr (type_node scope (p_type p)) (tmop_name op) (new_op_node tu scope op p final c L K)
      | Some n \<Rightarrow> Setattr (type_node scope (p_type p)) n
           (Setattr (name_node scope p) (tmop_name op) (new_op_node tu scope op p final c L K)))"

definition node_entry :: "doh \<Rightarrow> string option \<Rightarrow> string \<Rightarrow> doh option" where
  "node_entry tm n k =
     (case n of None \<Rightarrow> Getattr tm k
      | Some x \<Rightarrow> (case Getattr tm x of None \<Rightarrow> None | Some t1 \<Rightarrow> Getattr t1 k))"

definition norm_name :: "string option \<Rightarrow> string option" where
  "norm_name name = (case name of None \<Rightarrow> None | Some n \<Rightarrow> if n \<noteq> [] then Some n else None)"

definition backup_set :: "(doh + string option \<times> doh option) \<Rightarrow> bool" where
  "backup_set r = (case r of Inl x \<Rightarrow> True | Inr (na, b) \<Rightarrow> b \<noteq> None)"

section \<open>The scope stack: properties\<close>

lemma store_ok_init: "store_ok Swig_typemap_init"
  by (simp add: store_ok_def Swig_typemap_init_def MAX_SCOPE_def scope_stack_def
      scope_ok_def values_ok_def take_Suc_conv_app_nth)

lemma funpow_drop_scope:
  "0 \<le> tm_scope st \<Longrightarrow>
   typemaps ((drop_scope ^^ n) st) = typemaps st \<and>
   tm_scope ((drop_scope ^^ n) st) = max 0 (tm_scope st - int n)"
  by (induction n) (auto simp: drop_scope_def Swig_typemap_pop_scope_def)

lemma funpow_new_scope:
  "0 \<le> tm_scope st \<Longrightarrow>
   tm_scope ((Swig_typemap_new_scope ^^ n) st) = tm_scope st + int n \<and>
   length (typemaps ((Swig_typemap_new_scope ^^ n) st)) = length (typemaps st)"
  by (induction n) (auto simp: Swig_typemap_new_scope_def set_scope_def)

text \<open>
  C5: pushing a scope is not checked against \<open>MAX_SCOPE\<close>. Thirty-two calls of
  \<^verbatim>\<open>Swig_typemap_new_scope\<close> after \<^verbatim>\<open>Swig_typemap_init\<close> all return, and leave the index
  of the current scope at 32, past the last slot of the array.
\<close>

theorem new_scope_unchecked:
  "tm_scope ((Swig_typemap_new_scope ^^ 32) Swig_typemap_init) = MAX_SCOPE \<and>
   \<not> nat (tm_scope ((Swig_typemap_new_scope ^^ 32) Swig_typemap_init))
       < length (typemaps ((Swig_typemap_new_scope ^^ 32) Swig_typemap_init))"
  using funpow_new_scope[of Swig_typemap_init 32]
  by (simp add: Swig_typemap_init_def MAX_SCOPE_def)

text \<open>
  C6: the %except lookup reads the current scope only. After a string is stored in the
  bottom scope and one scope is pushed, the lookup gives null although the bottom
  scope holds the string.
\<close>

theorem except_lookup_top_only:
  "Swig_except_lookup
     (Swig_typemap_new_scope (Swig_except_register Swig_typemap_init ''X'')) = None \<and>
   Getattr_p
     (scope_at (Swig_typemap_new_scope (Swig_except_register Swig_typemap_init ''X'')) 0)
     ''*except*'' = Some (DStr ''X'')"
  by code_simp

text \<open>
  C7: in a well-formed store, \<^verbatim>\<open>Swig_typemap_pop_scope\<close> at a depth above 0 returns the top
  scope and removes it from the stack; at depth 0 it returns null and leaves the store
  as it is; and after any number of pops the stack is not empty and its bottom scope
  is the one it had.
\<close>

theorem pop_scope_sticky:
  assumes "store_ok st"
  shows "(0 < tm_scope st \<longrightarrow>
            fst (Swig_typemap_pop_scope st) = last (scope_stack st) \<and>
            scope_stack (snd (Swig_typemap_pop_scope st)) = butlast (scope_stack st))
       \<and> (tm_scope st = 0 \<longrightarrow> Swig_typemap_pop_scope st = (None, st))
       \<and> scope_stack ((drop_scope ^^ n) st) \<noteq> []
       \<and> hd (scope_stack ((drop_scope ^^ n) st)) = hd (scope_stack st)"
proof -
  from assms have b: "0 \<le> tm_scope st" "nat (tm_scope st) < length (typemaps st)"
    by (auto simp: store_ok_def)
  have 1: "0 < tm_scope st \<longrightarrow> fst (Swig_typemap_pop_scope st) = last (scope_stack st)"
    using b by (auto simp: Swig_typemap_pop_scope_def scope_stack_def scope_at_def
        nat_add_distrib take_Suc_conv_app_nth)
  have 2: "0 < tm_scope st \<longrightarrow>
           scope_stack (snd (Swig_typemap_pop_scope st)) = butlast (scope_stack st)"
    using b by (auto simp: Swig_typemap_pop_scope_def scope_stack_def nat_add_distrib
        nat_diff_distrib take_Suc_conv_app_nth)
  have 3: "tm_scope st = 0 \<longrightarrow> Swig_typemap_pop_scope st = (None, st)"
    by (simp add: Swig_typemap_pop_scope_def)
  have 4: "scope_stack ((drop_scope ^^ n) st) \<noteq> []"
    using b funpow_drop_scope[OF b(1), of n] by (auto simp: scope_stack_def)
  have 5: "hd (scope_stack ((drop_scope ^^ n) st)) = hd (scope_stack st)"
    using b funpow_drop_scope[OF b(1), of n] by (auto simp: scope_stack_def hd_conv_nth)
  show ?thesis using 1 2 3 4 5 by blast
qed

theorem pop_scope_sticky_witness:
  "store_ok (Swig_typemap_new_scope Swig_typemap_init) \<and>
   0 < tm_scope (Swig_typemap_new_scope Swig_typemap_init) \<and>
   fst (Swig_typemap_pop_scope (Swig_typemap_new_scope Swig_typemap_init)) = Some (DHash []) \<and>
   scope_stack (snd (Swig_typemap_pop_scope (Swig_typemap_new_scope Swig_typemap_init)))
     = [Some (DHash [])] \<and>
   store_ok Swig_typemap_init \<and> tm_scope Swig_typemap_init = 0 \<and>
   Swig_typemap_pop_scope Swig_typemap_init = (None, Swig_typemap_init) \<and>
   hd (scope_stack ((drop_scope ^^ 3) (Swig_typemap_new_scope Swig_typemap_init)))
     = Some (DHash [])"
proof -
  have ok1: "store_ok (Swig_typemap_new_scope Swig_typemap_init)"
    by code_simp
  have st: "scope_stack (Swig_typemap_new_scope Swig_typemap_init)
            = [Some (DHash []), Some (DHash [])]"
    by code_simp
  have d: "0 < tm_scope (Swig_typemap_new_scope Swig_typemap_init)"
    by code_simp
  have z: "tm_scope Swig_typemap_init = 0"
    by (simp add: Swig_typemap_init_def)
  show ?thesis
    using pop_scope_sticky[OF ok1, of 3] pop_scope_sticky[OF store_ok_init, of 0] ok1 st d z
      store_ok_init
    by simp
qed

section \<open>The registrar: properties\<close>

lemma map_of_upd: "map_of (upd k v kvs) k' = (if k' = k then Some v else map_of kvs k')"
  by (induction kvs) auto

lemma Getattr_Setattr:
  "is_hash h \<Longrightarrow> Getattr (Setattr h k v) k' = (if k' = k then Some v else Getattr h k')"
  by (cases h) (auto simp: is_hash_def map_of_upd)

lemma is_hash_Setattr [simp]: "is_hash (Setattr h k v) = is_hash h"
  by (cases h) (auto simp: is_hash_def)

lemma is_hash_empty [simp]: "is_hash (DHash kvs)"
  by (simp add: is_hash_def)

lemma list_all_upd:
  "list_all (\<lambda>(k, v). P k v) kvs \<Longrightarrow> P k v \<Longrightarrow> list_all (\<lambda>(k, v). P k v) (upd k v kvs)"
  by (induction kvs) auto

lemma values_ok_Setattr: "values_ok P h \<Longrightarrow> P k v \<Longrightarrow> values_ok P (Setattr h k v)"
  by (cases h) (auto simp: values_ok_def list_all_upd)

lemma values_ok_Getattr: "values_ok P h \<Longrightarrow> Getattr h k = Some v \<Longrightarrow> P k v"
  by (cases h) (auto simp: values_ok_def list_all_iff dest!: map_of_SomeD)

lemma values_ok_is_hash: "values_ok P h \<Longrightarrow> is_hash h"
  by (cases h) (auto simp: values_ok_def)

lemma values_ok_empty [simp]: "values_ok P (DHash [])"
  by (simp add: values_ok_def)

lemma method_node_ok_is_hash: "method_node_ok h \<Longrightarrow> is_hash h"
  by (simp add: method_node_ok_def values_ok_is_hash)

lemma type_node_ok_is_hash: "type_node_ok h \<Longrightarrow> is_hash h"
  by (simp add: type_node_ok_def values_ok_is_hash)

lemma scope_ok_is_hash: "scope_ok h \<Longrightarrow> is_hash h"
  by (simp add: scope_ok_def values_ok_is_hash)

lemma type_node_ok_Getattr: "type_node_ok h \<Longrightarrow> Getattr h k = Some v \<Longrightarrow> method_node_ok v"
  unfolding type_node_ok_def by (erule (1) values_ok_Getattr)

lemma method_node_ok_Getattr:
  "method_node_ok h \<Longrightarrow> Getattr h k = Some v \<Longrightarrow> prefix ''tmap:'' k \<Longrightarrow> is_hash v"
  unfolding method_node_ok_def by (drule (1) values_ok_Getattr) simp

lemma scope_ok_Getattr:
  "scope_ok h \<Longrightarrow> Getattr h k = Some v \<Longrightarrow> k \<noteq> ''*except*'' \<Longrightarrow> type_node_ok v"
  unfolding scope_ok_def by (drule (1) values_ok_Getattr) simp

lemma type_node_ok_Setattr: "type_node_ok h \<Longrightarrow> method_node_ok v \<Longrightarrow> type_node_ok (Setattr h k v)"
  unfolding type_node_ok_def by (erule values_ok_Setattr)

lemma method_node_ok_Setattr:
  "method_node_ok h \<Longrightarrow> (prefix ''tmap:'' k \<Longrightarrow> is_hash v) \<Longrightarrow> method_node_ok (Setattr h k v)"
  unfolding method_node_ok_def by (erule values_ok_Setattr) simp

lemma scope_ok_Setattr:
  "scope_ok h \<Longrightarrow> (k \<noteq> ''*except*'' \<Longrightarrow> type_node_ok v) \<Longrightarrow> scope_ok (Setattr h k v)"
  unfolding scope_ok_def by (erule values_ok_Setattr) simp

lemma method_node_ok_empty [simp]: "method_node_ok (DHash [])"
  by (simp add: method_node_ok_def)

lemma type_node_ok_empty [simp]: "type_node_ok (DHash [])"
  by (simp add: type_node_ok_def)

lemma type_node_ok_method: "type_node_ok h \<Longrightarrow> method_node_ok h"
  by (cases h) (fastforce simp: type_node_ok_def method_node_ok_def values_ok_def list_all_iff
      is_hash_def split: doh.splits)+

lemma prefix_tmop [simp]: "prefix ''tmap:'' (tmop_name op)"
  by (simp add: tmop_name_def)

lemma type_node_ok_type_node:
  "scope_ok scope \<Longrightarrow> T \<noteq> ''*except*'' \<Longrightarrow> type_node_ok (type_node scope T)"
  by (auto simp: type_node_def split: option.splits dest: scope_ok_Getattr)

lemma name_node_ok:
  assumes "scope_ok scope" "p_type p \<noteq> ''*except*''"
  shows "method_node_ok (name_node scope p)"
    and "p_name p = None \<Longrightarrow> type_node_ok (name_node scope p)"
  using type_node_ok_type_node[OF assms]
  by (auto simp: name_node_def split: option.splits dest: type_node_ok_Getattr type_node_ok_method)

lemma op_node_ok:
  assumes "scope_ok scope" "p_type p \<noteq> ''*except*''"
  shows "is_hash (op_node scope op p)"
    and "p_name p = None \<Longrightarrow> method_node_ok (op_node scope op p)"
  using name_node_ok[OF assms]
  by (auto simp: op_node_def split: option.splits
      dest: type_node_ok_Getattr method_node_ok_Getattr)

lemma Getattr_attrs_code:
  "is_hash tm2 \<Longrightarrow> Getattr (set_typemap_attrs tu tm2 op p c L K) ''code'' = Some (DStr c)"
  by (simp add: set_typemap_attrs_def Let_def Getattr_Setattr split: option.splits)

lemma tmap_key_no_attr:
  assumes "prefix ''tmap:'' k"
  shows "k \<noteq> ''code''" "k \<noteq> ''type''" "k \<noteq> ''typemap''" "k \<noteq> ''pname''"
    "k \<noteq> ''locals''" "k \<noteq> ''kwargs''"
  using assms by auto

lemma Getattr_attrs_tmap:
  assumes "is_hash tm2" "prefix ''tmap:'' k"
  shows "Getattr (set_typemap_attrs tu tm2 op p c L K) k = Getattr tm2 k"
  using assms(1) tmap_key_no_attr[OF assms(2)]
  by (simp add: set_typemap_attrs_def Let_def Getattr_Setattr split: option.splits)

lemma is_hash_attrs [simp]: "is_hash (set_typemap_attrs tu tm2 op p c L K) = is_hash tm2"
  by (simp add: set_typemap_attrs_def Let_def split: option.splits)

lemma method_node_ok_attrs:
  "method_node_ok tm2 \<Longrightarrow> method_node_ok (set_typemap_attrs tu tm2 op p c L K)"
  by (auto simp: set_typemap_attrs_def Let_def split: option.splits
      intro!: method_node_ok_Setattr)

lemma register_node_eq:
  "register_node tu scope op p final c L K =
     Setattr scope (p_type p) (new_type_node tu scope op p final c L K)"
  by (simp add: register_node_def new_type_node_def new_op_node_def Let_def type_node_def name_node_def op_node_def
      split: option.splits)

lemma new_op_node_ok:
  assumes "scope_ok scope" "p_type p \<noteq> ''*except*''"
  shows "is_hash (new_op_node tu scope op p final c L K)"
    and "p_name p = None \<Longrightarrow> method_node_ok (new_op_node tu scope op p final c L K)"
  using op_node_ok[OF assms, of op]
  by (auto simp: new_op_node_def method_node_ok_attrs)

lemma new_type_node_ok:
  assumes "scope_ok scope" "p_type p \<noteq> ''*except*''"
  shows "type_node_ok (new_type_node tu scope op p final c L K)"
proof (cases "p_name p")
  case None
  then show ?thesis
    using type_node_ok_type_node[OF assms] new_op_node_ok(2)[OF assms None]
    by (simp add: new_type_node_def type_node_ok_Setattr)
next
  case (Some n)
  then show ?thesis
    using type_node_ok_type_node[OF assms] new_op_node_ok(1)[OF assms] name_node_ok(1)[OF assms]
    by (simp add: new_type_node_def type_node_ok_Setattr method_node_ok_Setattr)
qed

lemma scope_ok_register_node:
  assumes "scope_ok scope" "p_type p \<noteq> ''*except*''"
  shows "scope_ok (register_node tu scope op p final c L K)"
  using new_type_node_ok[OF assms] assms(1)
  by (simp add: register_node_eq scope_ok_Setattr)

lemma node_entry_target:
  assumes "scope_ok scope" "p_type p \<noteq> ''*except*''"
  shows "node_entry (new_type_node tu scope op p final c L K) (p_name p) (tmop_name op)
         = Some (new_op_node tu scope op p final c L K)"
  using type_node_ok_type_node[OF assms] name_node_ok(1)[OF assms]
  by (auto simp: node_entry_def new_type_node_def Getattr_Setattr type_node_ok_is_hash
      method_node_ok_is_hash split: option.splits)

lemma op_node_code:
  "entry_code (Some (op_node scope op p))
     = entry_code (node_entry (type_node scope (p_type p)) (p_name p) (tmop_name op))"
  by (auto simp: entry_code_def op_node_def node_entry_def name_node_def split: option.splits)

lemma tmop_not_code [simp]: "tmop_name op \<noteq> ''code''" "''code'' \<noteq> tmop_name op"
  by (auto simp: tmop_name_def)

lemma node_frame:
  assumes ok: "scope_ok scope" "p_type p \<noteq> ''*except*''"
    and k: "prefix ''tmap:'' k"
    and ne: "(n, k) \<noteq> (p_name p, tmop_name op)"
  shows "entry_code (node_entry (new_type_node tu scope op p final c L K) n k)
           = entry_code (node_entry (type_node scope (p_type p)) n k)"
    and "node_entry (type_node scope (p_type p)) n k \<noteq> None \<Longrightarrow>
         node_entry (new_type_node tu scope op p final c L K) n k \<noteq> None"
proof -
  have h1: "is_hash (type_node scope (p_type p))"
    using type_node_ok_type_node[OF ok] by (simp add: type_node_ok_is_hash)
  have h2: "is_hash (name_node scope p)"
    using name_node_ok(1)[OF ok] by (simp add: method_node_ok_is_hash)
  have h3: "is_hash (op_node scope op p)"
    using op_node_ok(1)[OF ok] .
  have kc: "k \<noteq> ''code''" using tmap_key_no_attr(1)[OF k] .
  have at: "Getattr (new_op_node tu scope op p final c L K) k = Getattr (op_node scope op p) k"
    using Getattr_attrs_tmap[OF h3 k] by (simp add: new_op_node_def)
  have both: "entry_code (node_entry (new_type_node tu scope op p final c L K) n k)
           = entry_code (node_entry (type_node scope (p_type p)) n k) \<and>
        (node_entry (type_node scope (p_type p)) n k \<noteq> None \<longrightarrow>
         node_entry (new_type_node tu scope op p final c L K) n k \<noteq> None)"
  proof (cases "p_name p")
    case None
    note pn = None
    show ?thesis
    proof (cases n)
      case None
      with pn ne have "k \<noteq> tmop_name op" by simp
      with None pn h1 show ?thesis
        by (simp add: node_entry_def new_type_node_def Getattr_Setattr)
    next
      case (Some x)
      show ?thesis
      proof (cases "x = tmop_name op")
        case True
        with Some pn h1 at show ?thesis
          by (auto simp: node_entry_def new_type_node_def Getattr_Setattr op_node_def
              name_node_def entry_code_def split: option.splits)
      next
        case False
        with Some pn h1 show ?thesis
          by (simp add: node_entry_def new_type_node_def Getattr_Setattr)
      qed
    qed
  next
    case (Some y)
    note pn = Some
    show ?thesis
    proof (cases n)
      case None
      show ?thesis
      proof (cases "k = y")
        case True
        with None pn h1 h2 kc show ?thesis
          by (auto simp: node_entry_def new_type_node_def Getattr_Setattr
              name_node_def entry_code_def split: option.splits)
      next
        case False
        with None pn h1 show ?thesis
          by (simp add: node_entry_def new_type_node_def Getattr_Setattr)
      qed
    next
      case (Some x)
      show ?thesis
      proof (cases "x = y")
        case True
        with Some pn ne have "k \<noteq> tmop_name op" by simp
        with True Some pn h1 h2 show ?thesis
          by (auto simp: node_entry_def new_type_node_def Getattr_Setattr
              name_node_def entry_code_def split: option.splits)
      next
        case False
        with Some pn h1 show ?thesis
          by (simp add: node_entry_def new_type_node_def Getattr_Setattr)
      qed
    qed
  qed
  show "entry_code (node_entry (new_type_node tu scope op p final c L K) n k)
           = entry_code (node_entry (type_node scope (p_type p)) n k)"
    using both by blast
  show "node_entry (type_node scope (p_type p)) n k \<noteq> None \<Longrightarrow>
         node_entry (new_type_node tu scope op p final c L K) n k \<noteq> None"
    using both by blast
qed

lemma store_ok_top:
  assumes "store_ok st"
  obtains sc where "scope_at st (tm_scope st) = Some sc" "scope_ok sc"
proof -
  from assms have b: "0 \<le> tm_scope st" "nat (tm_scope st) < length (typemaps st)"
    and a: "list_all (\<lambda>sc. case sc of None \<Rightarrow> False | Some s \<Rightarrow> scope_ok s) (scope_stack st)"
    by (auto simp: store_ok_def)
  have "typemaps st ! nat (tm_scope st) \<in> set (scope_stack st)"
    using b by (auto simp: scope_stack_def in_set_conv_nth nat_add_distrib
        intro!: exI[of _ "nat (tm_scope st)"])
  with a have "case typemaps st ! nat (tm_scope st) of None \<Rightarrow> False | Some s \<Rightarrow> scope_ok s"
    by (simp add: list_all_iff)
  then show ?thesis using b that
    by (auto simp: scope_at_def split: option.splits)
qed

lemma store_ok_set_top:
  assumes "store_ok st" "scope_ok sc'"
  shows "store_ok (set_scope st (tm_scope st) (Some sc'))"
    and "tm_scope (set_scope st (tm_scope st) (Some sc')) = tm_scope st"
    and "scope_at (set_scope st (tm_scope st) (Some sc')) (tm_scope st) = Some sc'"
proof -
  from assms have b: "0 \<le> tm_scope st" "nat (tm_scope st) < length (typemaps st)"
    and a: "list_all (\<lambda>sc. case sc of None \<Rightarrow> False | Some s \<Rightarrow> scope_ok s) (scope_stack st)"
    by (auto simp: store_ok_def)
  show "tm_scope (set_scope st (tm_scope st) (Some sc')) = tm_scope st"
    by (simp add: set_scope_def)
  show "scope_at (set_scope st (tm_scope st) (Some sc')) (tm_scope st) = Some sc'"
    using b by (simp add: set_scope_def scope_at_def)
  have "scope_stack (set_scope st (tm_scope st) (Some sc'))
        = (scope_stack st)[nat (tm_scope st) := Some sc']"
    using b by (simp add: set_scope_def scope_stack_def take_update_swap)
  moreover have "list_all (\<lambda>sc. case sc of None \<Rightarrow> False | Some s \<Rightarrow> scope_ok s)
                   ((scope_stack st)[nat (tm_scope st) := Some sc'])"
    using a assms(2) by (auto simp: list_all_iff dest!: set_update_subset_insert[THEN subsetD])
  ultimately show "store_ok (set_scope st (tm_scope st) (Some sc'))"
    using assms(1) by (simp add: store_ok_def set_scope_def)
qed

lemma typemap_entry_node:
  assumes "0 \<le> tm_scope st" "scope_at st (tm_scope st) = Some sc" "n \<noteq> Some []"
  shows "typemap_entry st T n k = node_entry (type_node sc T) n k"
  using assms
  by (auto simp: typemap_entry_def Swig_typemap_get_def Getattr_p_def node_entry_def
      type_node_def split: option.splits)

lemma type_node_Setattr:
  "is_hash sc \<Longrightarrow> type_node (Setattr sc T' v) T = (if T = T' then v else type_node sc T)"
  by (simp add: type_node_def Getattr_Setattr)

lemma register_level_ok:
  assumes "store_ok st" "p_type p \<noteq> ''*except*''"
  shows "store_ok (register_level tu st op p final c L K)"
    and "tm_scope (register_level tu st op p final c L K) = tm_scope st"
proof -
  from assms(1) obtain sc where sc: "scope_at st (tm_scope st) = Some sc" "scope_ok sc"
    by (rule store_ok_top)
  have ok': "scope_ok (register_node tu sc op p final c L K)"
    using scope_ok_register_node[OF sc(2) assms(2)] .
  show "store_ok (register_level tu st op p final c L K)"
    using store_ok_set_top(1)[OF assms(1) ok'] sc(1) by (simp add: register_level_def)
  show "tm_scope (register_level tu st op p final c L K) = tm_scope st"
    using sc(1) by (simp add: register_level_def set_scope_def)
qed

lemma register_level_entry:
  assumes "store_ok st" "p_type p \<noteq> ''*except*''" "n \<noteq> Some []"
  shows "typemap_entry (register_level tu st op p final c L K) T n k =
           (case scope_at st (tm_scope st) of
              None \<Rightarrow> None
            | Some sc \<Rightarrow>
                node_entry (if T = p_type p then new_type_node tu sc op p final c L K
                            else type_node sc T) n k)"
proof -
  from assms(1) obtain sc where sc: "scope_at st (tm_scope st) = Some sc" "scope_ok sc"
    by (rule store_ok_top)
  have ok': "scope_ok (register_node tu sc op p final c L K)"
    using scope_ok_register_node[OF sc(2) assms(2)] .
  have b: "0 \<le> tm_scope st" using assms(1) by (simp add: store_ok_def)
  have at: "scope_at (register_level tu st op p final c L K)
              (tm_scope (register_level tu st op p final c L K))
            = Some (register_node tu sc op p final c L K)"
    using store_ok_set_top(2,3)[OF assms(1) ok'] sc(1) by (simp add: register_level_def)
  have b': "0 \<le> tm_scope (register_level tu st op p final c L K)"
    using register_level_ok(2)[OF assms(1,2)] b by simp
  show ?thesis
    using typemap_entry_node[OF b' at assms(3)] sc
    by (simp add: register_node_eq type_node_Setattr scope_ok_is_hash)
qed

lemma register_level_target:
  assumes "store_ok st" "p_type p \<noteq> ''*except*''" "p_name p \<noteq> Some []"
  shows "\<exists>e. typemap_entry (register_level tu st op p final c L K) (p_type p) (p_name p)
               (tmop_name op) = Some e \<and>
             Getattr e ''code'' =
               (if final then Some (DStr c)
                else entry_code (typemap_entry st (p_type p) (p_name p) (tmop_name op)))"
proof -
  from assms(1) obtain sc where sc: "scope_at st (tm_scope st) = Some sc" "scope_ok sc"
    by (rule store_ok_top)
  have b: "0 \<le> tm_scope st" using assms(1) by (simp add: store_ok_def)
  have e: "typemap_entry (register_level tu st op p final c L K) (p_type p) (p_name p)
             (tmop_name op) = Some (new_op_node tu sc op p final c L K)"
    using register_level_entry[OF assms] sc node_entry_target[OF sc(2) assms(2)] by simp
  have old: "typemap_entry st (p_type p) (p_name p) (tmop_name op)
              = node_entry (type_node sc (p_type p)) (p_name p) (tmop_name op)"
    using typemap_entry_node[OF b sc(1) assms(3)] .
  have "Getattr (new_op_node tu sc op p final c L K) ''code'' =
               (if final then Some (DStr c)
                else entry_code (typemap_entry st (p_type p) (p_name p) (tmop_name op)))"
    using op_node_ok(1)[OF sc(2) assms(2), of op] op_node_code[of sc op p] old
    by (simp add: new_op_node_def Getattr_attrs_code entry_code_def)
  with e show ?thesis by blast
qed

lemma register_level_frame:
  assumes "store_ok st" "p_type p \<noteq> ''*except*''" "n \<noteq> Some []" "prefix ''tmap:'' k"
    and ne: "(T, n, k) \<noteq> (p_type p, p_name p, tmop_name op)"
  shows "entry_code (typemap_entry (register_level tu st op p final c L K) T n k)
           = entry_code (typemap_entry st T n k)"
    and "typemap_entry st T n k \<noteq> None \<Longrightarrow>
         typemap_entry (register_level tu st op p final c L K) T n k \<noteq> None"
proof -
  from assms(1) obtain sc where sc: "scope_at st (tm_scope st) = Some sc" "scope_ok sc"
    by (rule store_ok_top)
  have b: "0 \<le> tm_scope st" using assms(1) by (simp add: store_ok_def)
  have old: "typemap_entry st T n k = node_entry (type_node sc T) n k"
    using typemap_entry_node[OF b sc(1) assms(3)] .
  have new: "typemap_entry (register_level tu st op p final c L K) T n k =
       node_entry (if T = p_type p then new_type_node tu sc op p final c L K
                            else type_node sc T) n k"
    using register_level_entry[OF assms(1,2,3)] sc by simp
  show "entry_code (typemap_entry (register_level tu st op p final c L K) T n k)
           = entry_code (typemap_entry st T n k)"
  proof (cases "T = p_type p")
    case True
    with ne have "(n, k) \<noteq> (p_name p, tmop_name op)" by simp
    from node_frame(1)[OF sc(2) assms(2) assms(4) this] True old new show ?thesis by simp
  next
    case False
    with old new show ?thesis by simp
  qed
  show "typemap_entry st T n k \<noteq> None \<Longrightarrow>
         typemap_entry (register_level tu st op p final c L K) T n k \<noteq> None"
  proof (cases "T = p_type p")
    case True
    with ne have "(n, k) \<noteq> (p_name p, tmop_name op)" by simp
    from node_frame(2)[OF sc(2) assms(2) assms(4) this] True old new
    show "typemap_entry st T n k \<noteq> None \<Longrightarrow> ?thesis" by simp
  next
    case False
    with old new show "typemap_entry st T n k \<noteq> None \<Longrightarrow> ?thesis" by simp
  qed
qed

lemma length_newop: "length op < length (newop op p)"
  by (simp add: newop_def)

lemma length_foldl_newop: "length op \<le> length (foldl newop op ps)"
proof (induction ps arbitrary: op)
  case Nil
  show ?case by simp
next
  case (Cons p ps)
  have "length op < length (newop op p)" by (rule length_newop)
  also have "\<dots> \<le> length (foldl newop (newop op p) ps)" by (rule Cons.IH)
  finally show ?case by simp
qed

lemma tmop_foldl_neq:
  "tmop_name (foldl newop (newop op p) ps) \<noteq> tmop_name op"
proof
  assume "tmop_name (foldl newop (newop op p) ps) = tmop_name op"
  then have "length (foldl newop (newop op p) ps) = length op"
    by (simp add: tmop_name_def)
  moreover have "length op < length (foldl newop (newop op p) ps)"
    using length_newop[of op p] length_foldl_newop[of "newop op p" ps] by linarith
  ultimately show False by simp
qed

lemma register_multi_ok:
  assumes "store_ok st" "\<forall>p\<in>set parms. p_type p \<noteq> ''*except*''"
  shows "store_ok (Swig_typemap_register_multi tu st op parms c L K) \<and>
         tm_scope (Swig_typemap_register_multi tu st op parms c L K) = tm_scope st"
  using assms
proof (induction parms arbitrary: st op)
  case Nil
  then show ?case by simp
next
  case (Cons p np)
  let ?st1 = "register_level tu st op p (np = []) c L K"
  have ok1: "store_ok ?st1" and ts1: "tm_scope ?st1 = tm_scope st"
    using register_level_ok[of st p tu op "np = []" c L K] Cons.prems by auto
  show ?case
  proof (cases "np = []")
    case True
    with ok1 ts1 show ?thesis by simp
  next
    case False
    have "store_ok (Swig_typemap_register_multi tu ?st1 (newop op p) np c L K) \<and>
         tm_scope (Swig_typemap_register_multi tu ?st1 (newop op p) np c L K) = tm_scope ?st1"
      using Cons.IH[OF ok1] Cons.prems(2) by simp
    with False ts1 show ?thesis by (simp add: Let_def)
  qed
qed

lemma register_multi_frame:
  assumes "store_ok st" "\<forall>p\<in>set parms. p_type p \<noteq> ''*except*''"
    and "n \<noteq> Some []" "prefix ''tmap:'' k"
    and "\<forall>i<length parms. k \<noteq> tmop_name (foldl newop op (take i parms))"
  shows "entry_code (typemap_entry (Swig_typemap_register_multi tu st op parms c L K) T n k)
           = entry_code (typemap_entry st T n k) \<and>
         (typemap_entry st T n k \<noteq> None \<longrightarrow>
          typemap_entry (Swig_typemap_register_multi tu st op parms c L K) T n k \<noteq> None)"
  using assms(1,2,5)
proof (induction parms arbitrary: st op)
  case Nil
  then show ?case by simp
next
  case (Cons p np)
  let ?st1 = "register_level tu st op p (np = []) c L K"
  have pt: "p_type p \<noteq> ''*except*''" using Cons.prems(2) by simp
  have ok1: "store_ok ?st1"
    using register_level_ok(1)[OF Cons.prems(1) pt] .
  have "k \<noteq> tmop_name (foldl newop op (take 0 (p # np)))"
    using Cons.prems(3) by blast
  then have k0: "(T, n, k) \<noteq> (p_type p, p_name p, tmop_name op)" by simp
  have f1: "entry_code (typemap_entry ?st1 T n k) = entry_code (typemap_entry st T n k)"
    using register_level_frame(1)[OF Cons.prems(1) pt assms(3,4) k0] .
  have f2: "typemap_entry st T n k \<noteq> None \<Longrightarrow> typemap_entry ?st1 T n k \<noteq> None"
    using register_level_frame(2)[OF Cons.prems(1) pt assms(3,4) k0] .
  show ?case
  proof (cases "np = []")
    case True
    with f1 f2 show ?thesis by simp
  next
    case False
    have keys: "\<forall>i<length np. k \<noteq> tmop_name (foldl newop (newop op p) (take i np))"
    proof (intro allI impI)
      fix i assume "i < length np"
      then have "Suc i < length (p # np)" by simp
      with Cons.prems(3) have "k \<noteq> tmop_name (foldl newop op (take (Suc i) (p # np)))"
        by blast
      then show "k \<noteq> tmop_name (foldl newop (newop op p) (take i np))" by simp
    qed
    have "entry_code (typemap_entry (Swig_typemap_register_multi tu ?st1 (newop op p) np c L K) T n k)
           = entry_code (typemap_entry ?st1 T n k) \<and>
         (typemap_entry ?st1 T n k \<noteq> None \<longrightarrow>
          typemap_entry (Swig_typemap_register_multi tu ?st1 (newop op p) np c L K) T n k \<noteq> None)"
      using Cons.IH[OF ok1 _ keys] Cons.prems(2) by simp
    with False f1 f2 show ?thesis by (simp add: Let_def)
  qed
qed

lemma register_multi_last:
  assumes "store_ok st" "\<forall>p\<in>set parms. p_type p \<noteq> ''*except*'' \<and> p_name p \<noteq> Some []"
    and "parms \<noteq> []"
  shows "\<exists>e. typemap_entry (Swig_typemap_register_multi tu st op parms c L K)
                (p_type (last parms)) (p_name (last parms))
                (tmop_name (foldl newop op (butlast parms))) = Some e \<and>
             Getattr e ''code'' = Some (DStr c)"
  using assms
proof (induction parms arbitrary: st op)
  case Nil
  then show ?case by simp
next
  case (Cons p np)
  let ?st1 = "register_level tu st op p (np = []) c L K"
  have pt: "p_type p \<noteq> ''*except*''" and pn: "p_name p \<noteq> Some []"
    using Cons.prems(2) by simp_all
  have ok1: "store_ok ?st1"
    using register_level_ok(1)[OF Cons.prems(1) pt] .
  show ?case
  proof (cases "np = []")
    case True
    with register_level_target[OF Cons.prems(1) pt pn, of tu op True c L K]
    show ?thesis by simp
  next
    case False
    have "\<exists>e. typemap_entry (Swig_typemap_register_multi tu ?st1 (newop op p) np c L K)
                (p_type (last np)) (p_name (last np))
                (tmop_name (foldl newop (newop op p) (butlast np))) = Some e \<and>
             Getattr e ''code'' = Some (DStr c)"
      using Cons.IH[OF ok1 _ False] Cons.prems(2) by simp
    with False show ?thesis by (simp add: Let_def)
  qed
qed

lemma register_multi_inner:
  assumes "store_ok st" "\<forall>p\<in>set parms. p_type p \<noteq> ''*except*'' \<and> p_name p \<noteq> Some []"
    and "i < length parms - 1"
  shows "typemap_entry (Swig_typemap_register_multi tu st op parms c L K)
            (p_type (parms ! i)) (p_name (parms ! i))
            (tmop_name (foldl newop op (take i parms))) \<noteq> None \<and>
         entry_code (typemap_entry (Swig_typemap_register_multi tu st op parms c L K)
            (p_type (parms ! i)) (p_name (parms ! i))
            (tmop_name (foldl newop op (take i parms))))
         = entry_code (typemap_entry st
            (p_type (parms ! i)) (p_name (parms ! i))
            (tmop_name (foldl newop op (take i parms))))"
  using assms
proof (induction parms arbitrary: st op i)
  case Nil
  then show ?case by simp
next
  case (Cons p np)
  let ?st1 = "register_level tu st op p (np = []) c L K"
  have pt: "p_type p \<noteq> ''*except*''" and pn: "p_name p \<noteq> Some []"
    using Cons.prems(2) by simp_all
  have ok1: "store_ok ?st1"
    using register_level_ok(1)[OF Cons.prems(1) pt] .
  from Cons.prems(3) have np: "np \<noteq> []" by auto
  have types: "\<forall>q\<in>set np. p_type q \<noteq> ''*except*''" using Cons.prems(2) by simp
  have st': "Swig_typemap_register_multi tu st op (p # np) c L K
             = Swig_typemap_register_multi tu ?st1 (newop op p) np c L K"
    using np by (simp add: Let_def)
  show ?case
  proof (cases i)
    case 0
    from register_level_target[OF Cons.prems(1) pt pn, of tu op False c L K] np
    obtain e where e: "typemap_entry ?st1 (p_type p) (p_name p) (tmop_name op) = Some e"
      "Getattr e ''code'' = entry_code (typemap_entry st (p_type p) (p_name p) (tmop_name op))"
      by auto
    have keys: "\<forall>j<length np. tmop_name op \<noteq> tmop_name (foldl newop (newop op p) (take j np))"
      using tmop_foldl_neq[of op p] by metis
    from register_multi_frame[OF ok1 types pn _ keys, of tu c L K "p_type p"] e
    have "entry_code (typemap_entry (Swig_typemap_register_multi tu ?st1 (newop op p) np c L K)
             (p_type p) (p_name p) (tmop_name op))
          = entry_code (typemap_entry st (p_type p) (p_name p) (tmop_name op))"
      and "typemap_entry (Swig_typemap_register_multi tu ?st1 (newop op p) np c L K)
             (p_type p) (p_name p) (tmop_name op) \<noteq> None"
      by (simp_all add: entry_code_def)
    with 0 st' show ?thesis by simp
  next
    case (Suc j)
    with Cons.prems(3) have j: "j < length np - 1" by simp
    let ?q = "np ! j"
    let ?k = "tmop_name (foldl newop (newop op p) (take j np))"
    have ih: "typemap_entry (Swig_typemap_register_multi tu ?st1 (newop op p) np c L K)
            (p_type ?q) (p_name ?q) ?k \<noteq> None \<and>
         entry_code (typemap_entry (Swig_typemap_register_multi tu ?st1 (newop op p) np c L K)
            (p_type ?q) (p_name ?q) ?k)
         = entry_code (typemap_entry ?st1 (p_type ?q) (p_name ?q) ?k)"
      using Cons.IH[OF ok1 _ j] Cons.prems(2) by simp
    have qn: "p_name ?q \<noteq> Some []"
      using Cons.prems(2) j by (simp add: nth_mem)
    have kne: "(p_type ?q, p_name ?q, ?k) \<noteq> (p_type p, p_name p, tmop_name op)"
      using tmop_foldl_neq[of op p "take j np"] by simp
    have "entry_code (typemap_entry ?st1 (p_type ?q) (p_name ?q) ?k)
          = entry_code (typemap_entry st (p_type ?q) (p_name ?q) ?k)"
      using register_level_frame(1)[OF Cons.prems(1) pt qn _ kne] by simp
    with ih Suc st' show ?thesis by simp
  qed
qed

text \<open>
  C8: the test on the lengths in \<^verbatim>\<open>Swig_typemap_copy_multi\<close> is made on the heads of the
  two lists, and the parameters are not counted. For every length function that gives
  the same length to two lists that have the same head node and each a second node,
  the copy of the rule registered on \<^verbatim>\<open>(int argc, char **argv)\<close> from these two parameters
  to the three parameters \<^verbatim>\<open>(int argc, char **argv, int flag)\<close> returns 0 and files the
  rule under the third parameter, where there was none.
\<close>

theorem copy_arity_unchecked:
  assumes "\<And>p ps qs. ps \<noteq> [] \<Longrightarrow> qs \<noteq> [] \<Longrightarrow> Len (p # ps) = Len (p # qs)"
  shows
  "length [\<lparr>p_type = ''int'', p_name = Some ''argc'', p_lname = None, p_value = None\<rparr>,
           \<lparr>p_type = ''p.p.char'', p_name = Some ''argv'', p_lname = None, p_value = None\<rparr>]
     \<noteq> length [\<lparr>p_type = ''int'', p_name = Some ''argc'', p_lname = None, p_value = None\<rparr>,
                \<lparr>p_type = ''p.p.char'', p_name = Some ''argv'', p_lname = None, p_value = None\<rparr>,
                \<lparr>p_type = ''int'', p_name = Some ''flag'', p_lname = None, p_value = None\<rparr>] \<and>
   fst (Swig_typemap_copy_multi example_typeutils Len
          (Swig_typemap_register_multi example_typeutils Swig_typemap_init ''in''
             [\<lparr>p_type = ''int'', p_name = Some ''argc'', p_lname = None, p_value = None\<rparr>,
              \<lparr>p_type = ''p.p.char'', p_name = Some ''argv'', p_lname = None, p_value = None\<rparr>]
             ''CODE'' [] [])
          ''in''
          [\<lparr>p_type = ''int'', p_name = Some ''argc'', p_lname = None, p_value = None\<rparr>,
           \<lparr>p_type = ''p.p.char'', p_name = Some ''argv'', p_lname = None, p_value = None\<rparr>]
          [\<lparr>p_type = ''int'', p_name = Some ''argc'', p_lname = None, p_value = None\<rparr>,
           \<lparr>p_type = ''p.p.char'', p_name = Some ''argv'', p_lname = None, p_value = None\<rparr>,
           \<lparr>p_type = ''int'', p_name = Some ''flag'', p_lname = None, p_value = None\<rparr>]) = 0 \<and>
   entry_code
     (typemap_entry
        (snd (Swig_typemap_copy_multi example_typeutils Len
          (Swig_typemap_register_multi example_typeutils Swig_typemap_init ''in''
             [\<lparr>p_type = ''int'', p_name = Some ''argc'', p_lname = None, p_value = None\<rparr>,
              \<lparr>p_type = ''p.p.char'', p_name = Some ''argv'', p_lname = None, p_value = None\<rparr>]
             ''CODE'' [] [])
          ''in''
          [\<lparr>p_type = ''int'', p_name = Some ''argc'', p_lname = None, p_value = None\<rparr>,
           \<lparr>p_type = ''p.p.char'', p_name = Some ''argv'', p_lname = None, p_value = None\<rparr>]
          [\<lparr>p_type = ''int'', p_name = Some ''argc'', p_lname = None, p_value = None\<rparr>,
           \<lparr>p_type = ''p.p.char'', p_name = Some ''argv'', p_lname = None, p_value = None\<rparr>,
           \<lparr>p_type = ''int'', p_name = Some ''flag'', p_lname = None, p_value = None\<rparr>]))
        ''int'' (Some ''flag'') ''tmap:in-int+argc:-p.p.char+argv:'') = Some (DStr ''CODE'') \<and>
   typemap_entry
     (Swig_typemap_register_multi example_typeutils Swig_typemap_init ''in''
        [\<lparr>p_type = ''int'', p_name = Some ''argc'', p_lname = None, p_value = None\<rparr>,
         \<lparr>p_type = ''p.p.char'', p_name = Some ''argv'', p_lname = None, p_value = None\<rparr>]
        ''CODE'' [] [])
     ''int'' (Some ''flag'') ''tmap:in-int+argc:-p.p.char+argv:'' = None"
proof -
  define src where "src =
          [\<lparr>p_type = ''int'', p_name = Some ''argc'', p_lname = None, p_value = None\<rparr>,
           \<lparr>p_type = ''p.p.char'', p_name = Some ''argv'', p_lname = None, p_value = None\<rparr>]"
  define dst where "dst =
          [\<lparr>p_type = ''int'', p_name = Some ''argc'', p_lname = None, p_value = None\<rparr>,
           \<lparr>p_type = ''p.p.char'', p_name = Some ''argv'', p_lname = None, p_value = None\<rparr>,
           \<lparr>p_type = ''int'', p_name = Some ''flag'', p_lname = None, p_value = None\<rparr>]"
  define st where "st = Swig_typemap_register_multi example_typeutils Swig_typemap_init ''in''
                          src ''CODE'' [] []"
  have g: "Len dst = Len src"
    unfolding src_def dst_def by (rule assms) simp_all
  have c: "Swig_typemap_copy_multi example_typeutils Len st ''in'' src dst
           = copy_scopes example_typeutils st ''in'' src dst (tm_scope st) None"
    by (simp add: Swig_typemap_copy_multi_def g)
  have 1: "length src \<noteq> length dst" by (simp add: src_def dst_def)
  have 2: "fst (copy_scopes example_typeutils st ''in'' src dst (tm_scope st) None) = 0"
    unfolding st_def src_def dst_def by code_simp
  have 3: "entry_code (typemap_entry
             (snd (copy_scopes example_typeutils st ''in'' src dst (tm_scope st) None))
             ''int'' (Some ''flag'') ''tmap:in-int+argc:-p.p.char+argv:'') = Some (DStr ''CODE'')"
    unfolding st_def src_def dst_def by code_simp
  have 4: "typemap_entry st ''int'' (Some ''flag'') ''tmap:in-int+argc:-p.p.char+argv:'' = None"
    unfolding st_def src_def dst_def by code_simp
  from 1 2 3 4 show ?thesis
    unfolding c[symmetric] unfolding st_def src_def dst_def by blast
qed

theorem copy_arity_unchecked_witness:
  "head_len [\<lparr>p_type = ''int'', p_name = Some ''argc'', p_lname = None, p_value = None\<rparr>,
             \<lparr>p_type = ''p.p.char'', p_name = Some ''argv'', p_lname = None, p_value = None\<rparr>]
     = head_len [\<lparr>p_type = ''int'', p_name = Some ''argc'', p_lname = None, p_value = None\<rparr>,
                 \<lparr>p_type = ''p.p.char'', p_name = Some ''argv'', p_lname = None, p_value = None\<rparr>,
                 \<lparr>p_type = ''int'', p_name = Some ''flag'', p_lname = None, p_value = None\<rparr>] \<and>
   fst (Swig_typemap_copy_multi example_typeutils head_len
          (Swig_typemap_register_multi example_typeutils Swig_typemap_init ''in''
             [\<lparr>p_type = ''int'', p_name = Some ''argc'', p_lname = None, p_value = None\<rparr>,
              \<lparr>p_type = ''p.p.char'', p_name = Some ''argv'', p_lname = None, p_value = None\<rparr>]
             ''CODE'' [] [])
          ''in''
          [\<lparr>p_type = ''int'', p_name = Some ''argc'', p_lname = None, p_value = None\<rparr>,
           \<lparr>p_type = ''p.p.char'', p_name = Some ''argv'', p_lname = None, p_value = None\<rparr>]
          [\<lparr>p_type = ''int'', p_name = Some ''argc'', p_lname = None, p_value = None\<rparr>,
           \<lparr>p_type = ''p.p.char'', p_name = Some ''argv'', p_lname = None, p_value = None\<rparr>,
           \<lparr>p_type = ''int'', p_name = Some ''flag'', p_lname = None, p_value = None\<rparr>]) = 0 \<and>
   entry_code
     (typemap_entry
        (snd (Swig_typemap_copy_multi example_typeutils head_len
          (Swig_typemap_register_multi example_typeutils Swig_typemap_init ''in''
             [\<lparr>p_type = ''int'', p_name = Some ''argc'', p_lname = None, p_value = None\<rparr>,
              \<lparr>p_type = ''p.p.char'', p_name = Some ''argv'', p_lname = None, p_value = None\<rparr>]
             ''CODE'' [] [])
          ''in''
          [\<lparr>p_type = ''int'', p_name = Some ''argc'', p_lname = None, p_value = None\<rparr>,
           \<lparr>p_type = ''p.p.char'', p_name = Some ''argv'', p_lname = None, p_value = None\<rparr>]
          [\<lparr>p_type = ''int'', p_name = Some ''argc'', p_lname = None, p_value = None\<rparr>,
           \<lparr>p_type = ''p.p.char'', p_name = Some ''argv'', p_lname = None, p_value = None\<rparr>,
           \<lparr>p_type = ''int'', p_name = Some ''flag'', p_lname = None, p_value = None\<rparr>]))
        ''int'' (Some ''flag'') ''tmap:in-int+argc:-p.p.char+argv:'') = Some (DStr ''CODE'')"
proof -
  have h: "\<And>p ps qs. ps \<noteq> [] \<Longrightarrow> qs \<noteq> [] \<Longrightarrow> head_len (p # ps) = head_len (p # qs)"
    by (simp add: head_len_def)
  have e: "head_len [\<lparr>p_type = ''int'', p_name = Some ''argc'', p_lname = None, p_value = None\<rparr>,
             \<lparr>p_type = ''p.p.char'', p_name = Some ''argv'', p_lname = None, p_value = None\<rparr>]
     = head_len [\<lparr>p_type = ''int'', p_name = Some ''argc'', p_lname = None, p_value = None\<rparr>,
                 \<lparr>p_type = ''p.p.char'', p_name = Some ''argv'', p_lname = None, p_value = None\<rparr>,
                 \<lparr>p_type = ''int'', p_name = Some ''flag'', p_lname = None, p_value = None\<rparr>]"
    by (rule h) simp_all
  from copy_arity_unchecked[of head_len, OF h] e show ?thesis by blast
qed

section \<open>The lookup engine: properties\<close>

text \<open>
  C10: \<^verbatim>\<open>Swig_typemap_search_multi\<close> on the empty parameter list returns null and sets
  \<^verbatim>\<open>*nmatch\<close> to 0, whatever the store, the operator and the value of \<^verbatim>\<open>*nmatch\<close> before.
\<close>

theorem search_multi_empty:
  "Swig_typemap_search_multi tu st op [] nmatch = Some (None, 0)"
  by simp

lemma search_scopes_hit:
  assumes "0 \<le> ts"
    and "Getattr_p (scope_at st ts) T = Some tm"
    and "node_entry tm cname tmop = Some e" "has_code e"
  shows "search_scopes tu st cname tmop T isarr ts na b = Some (Some e)"
proof -
  have p: "probe (Some tm) cname tmop b = Inl e"
    using assms(3,4)
    by (auto simp: probe_def keep_result_def named_result_def node_entry_def
        split: option.splits)
  have "search_ctypes tu (scope_at st ts) cname tmop isarr T False na b = Some (Inl e)"
    by (subst search_ctypes.simps) (simp add: probe_ctype_def assms(2) p)
  then show ?thesis
    using assms(1) by (subst search_scopes.simps) simp
qed

lemma typemap_entry_norm:
  assumes "0 \<le> tm_scope st"
  shows "typemap_entry st T name k =
         (case Getattr_p (scope_at st (tm_scope st)) T of None \<Rightarrow> None
          | Some tm \<Rightarrow> node_entry tm (norm_name name) k)"
  using assms
  by (auto simp: typemap_entry_def Swig_typemap_get_def node_entry_def norm_name_def
      split: option.splits)

lemma search_top_hit:
  assumes "0 \<le> tm_scope st"
    and "typemap_entry st T name (tmop_name op) = Some e" "has_code e"
  shows "Swig_typemap_search tu st op T name = Some (Some e)"
proof -
  from assms(2) obtain tm where tm: "Getattr_p (scope_at st (tm_scope st)) T = Some tm"
    "node_entry tm (norm_name name) (tmop_name op) = Some e"
    by (auto simp: typemap_entry_norm[OF assms(1)] split: option.splits)
  show ?thesis
    unfolding Swig_typemap_search_def
    using search_scopes_hit[OF assms(1) tm(1) tm(2) assms(3)]
    by (simp add: norm_name_def)
qed

lemma keep_result_backup:
  "keep_result r b = Inr b' \<Longrightarrow> (b \<noteq> None \<or> r \<noteq> None) \<Longrightarrow> b' \<noteq> None"
  by (auto simp: keep_result_def split: option.splits if_splits)

lemma probe_backup:
  assumes "probe tm cname tmop b = Inr b'" "b \<noteq> None"
  shows "b' \<noteq> None"
proof (cases tm)
  case None
  with assms show ?thesis by (simp add: probe_def)
next
  case (Some tmh)
  show ?thesis
  proof (cases "keep_result (named_result tmh cname tmop) b")
    case (Inl a)
    with Some assms(1) show ?thesis by (simp add: probe_def)
  next
    case (Inr b1)
    with assms(2) have "b1 \<noteq> None" by (auto dest: keep_result_backup)
    with Inr Some assms(1) show ?thesis
      by (auto simp: probe_def dest: keep_result_backup)
  qed
qed

lemma probe_found:
  assumes "probe (Some tm) cname tmop b = Inr b'" "node_entry tm cname tmop \<noteq> None"
  shows "b' \<noteq> None"
proof (cases cname)
  case None
  with assms show ?thesis
    by (auto simp: probe_def node_entry_def named_result_def split: sum.splits
        dest: keep_result_backup)
next
  case (Some x)
  with assms(2) have nr: "named_result tm cname tmop \<noteq> None"
    by (auto simp: node_entry_def named_result_def split: option.splits)
  from assms(1) show ?thesis
  proof (cases "keep_result (named_result tm cname tmop) b")
    case (Inl a)
    with assms(1) show ?thesis by (simp add: probe_def)
  next
    case (Inr b1)
    with nr have "b1 \<noteq> None" by (auto dest: keep_result_backup)
    with Inr assms(1) show ?thesis
      by (auto simp: probe_def dest: keep_result_backup)
  qed
qed

lemma probe_ctype_backup:
  "probe_ctype tu sc cname tmop isarr t na b = Inr (na', b') \<Longrightarrow> b \<noteq> None \<Longrightarrow> b' \<noteq> None"
  by (auto simp: probe_ctype_def Let_def split: sum.splits if_splits dest: probe_backup)

lemma probe_ctype_found:
  assumes "probe_ctype tu sc cname tmop isarr t na b = Inr (na', b')"
    and "Getattr_p sc t = Some tm" "node_entry tm cname tmop \<noteq> None"
  shows "b' \<noteq> None"
  using assms
  by (auto simp: probe_ctype_def Let_def split: sum.splits if_splits
      dest: probe_backup probe_found)

lemma search_ctypes_total:
  assumes "resolves tu n t" "b \<noteq> None"
  shows "\<exists>r. search_ctypes tu sc cname tmop isarr t False na b = Some r \<and> backup_set r"
  using assms
proof (induction n arbitrary: t na b)
  case 0
  then show ?case by simp
next
  case (Suc n)
  let ?s = "SwigType_strip_qualifiers tu t"
  show ?case
  proof (cases "probe_ctype tu sc cname tmop isarr t na b")
    case (Inl x)
    then show ?thesis
      by (subst search_ctypes.simps) (simp add: backup_set_def)
  next
    case (Inr nb)
    obtain na1 b1 where nb: "nb = (na1, b1)" by (cases nb)
    have b1: "b1 \<noteq> None" using probe_ctype_backup[OF Inr[unfolded nb] Suc.prems(2)] .
    have tail: "\<And>u na2 b2. b2 \<noteq> None \<Longrightarrow> SwigType_typedef_resolve tu u = SwigType_typedef_resolve tu ?s \<Longrightarrow>
       \<exists>r. (case SwigType_typedef_resolve tu u of
                  None \<Rightarrow> Some (Inr (na2, b2))
                | Some ctype' \<Rightarrow>
                    search_ctypes tu sc cname tmop isarr ctype' False na2 b2) = Some r \<and> backup_set r"
    proof -
      fix u na2 b2 assume b2: "b2 \<noteq> (None :: doh option)"
        and u: "SwigType_typedef_resolve tu u = SwigType_typedef_resolve tu ?s"
      show "\<exists>r. (case SwigType_typedef_resolve tu u of
                  None \<Rightarrow> Some (Inr (na2, b2))
                | Some ctype' \<Rightarrow>
                    search_ctypes tu sc cname tmop isarr ctype' False na2 b2) = Some r \<and> backup_set r"
      proof (cases "SwigType_typedef_resolve tu ?s")
        case None
        with u b2 show ?thesis by (simp add: backup_set_def)
      next
        case (Some t')
        with Suc.prems(1) have "resolves tu n t'" by simp
        from Suc.IH[OF this b2] Some u show ?thesis by simp
      qed
    qed
    show ?thesis
    proof (cases "?s \<noteq> t")
      case True
      show ?thesis
      proof (cases "probe_ctype tu sc cname tmop isarr ?s na1 b1")
        case (Inl x)
        then have "search_ctypes tu sc cname tmop isarr ?s True na1 b1 = Some (Inl x)"
          by (subst search_ctypes.simps) simp
        with Inr nb True show ?thesis
          by (subst search_ctypes.simps) (simp add: backup_set_def)
      next
        case (Inr nb2)
        obtain na2 b2 where nb2: "nb2 = (na2, b2)" by (cases nb2)
        have b2: "b2 \<noteq> None" using probe_ctype_backup[OF Inr[unfolded nb2] b1] .
        have "search_ctypes tu sc cname tmop isarr ?s True na1 b1 =
              (case SwigType_typedef_resolve tu ?s of
                  None \<Rightarrow> Some (Inr (na2, b2))
                | Some ctype' \<Rightarrow>
                    search_ctypes tu sc cname tmop isarr ctype' False na2 b2)"
          using Inr nb2 by (subst search_ctypes.simps) simp
        with tail[OF b2 refl, of na2] \<open>probe_ctype tu sc cname tmop isarr t na b = Inr nb\<close> nb True
        show ?thesis
          by (subst search_ctypes.simps) simp
      qed
    next
      case False
      then have eq: "?s = t" by simp
      have "search_ctypes tu sc cname tmop isarr t False na b =
              (case SwigType_typedef_resolve tu t of
                  None \<Rightarrow> Some (Inr (na1, b1))
                | Some ctype' \<Rightarrow>
                    search_ctypes tu sc cname tmop isarr ctype' False na1 b1)"
        using Inr nb eq by (subst search_ctypes.simps) simp
      with tail[OF b1, of t na1] eq show ?thesis by simp
    qed
  qed
qed

lemma search_scopes_backup:
  assumes "resolves tu n T" "b \<noteq> None"
  shows "\<exists>x. search_scopes tu st cname tmop T isarr ts na b = Some (Some x)"
  using assms(2)
proof (induction "nat (ts + 1)" arbitrary: ts na b)
  case 0
  then have "\<not> ts \<ge> 0" by simp
  with "0.prems" show ?case
    by (subst search_scopes.simps) auto
next
  case (Suc m)
  then have ts: "ts \<ge> 0" and m: "m = nat ((ts - 1) + 1)" by auto
  from search_ctypes_total[OF assms(1) Suc.prems, of "scope_at st ts" cname tmop isarr na]
  obtain r where r: "search_ctypes tu (scope_at st ts) cname tmop isarr T False na b = Some r"
    "backup_set r" by blast
  show ?case
  proof (cases r)
    case (Inl x)
    with r ts show ?thesis by (subst search_scopes.simps) simp
  next
    case (Inr nb)
    obtain na1 b1 where nb: "nb = (na1, b1)" by (cases nb)
    with Inr r(2) have b1: "b1 \<noteq> None" by (simp add: backup_set_def)
    from Suc.hyps(1)[OF m b1, of na1]
    obtain x where "search_scopes tu st cname tmop T isarr (ts - 1) na1 b1 = Some (Some x)"
      by blast
    with Inr nb r ts show ?thesis
      by (subst search_scopes.simps) (auto split: option.splits)
  qed
qed

lemma search_scopes_found:
  assumes "resolves tu n T" "0 \<le> ts"
    and "Getattr_p (scope_at st ts) T = Some tm" "node_entry tm cname tmop \<noteq> None"
  shows "\<exists>x. search_scopes tu st cname tmop T isarr ts na b = Some (Some x)"
proof (cases "probe_ctype tu (scope_at st ts) cname tmop isarr T na b")
  case (Inl x)
  then have "search_ctypes tu (scope_at st ts) cname tmop isarr T False na b = Some (Inl x)"
    by (subst search_ctypes.simps) simp
  with assms(2) show ?thesis by (subst search_scopes.simps) simp
next
  case (Inr nb)
  obtain na1 b1 where nb: "nb = (na1, b1)" by (cases nb)
  have b1: "b1 \<noteq> None"
    using probe_ctype_found[OF Inr[unfolded nb] assms(3,4)] .
  from assms(1) obtain n' where n': "n = Suc n'" by (cases n) auto
  let ?s = "SwigType_strip_qualifiers tu T"
  have tail: "\<And>na2 b2. b2 \<noteq> None \<Longrightarrow>
       \<exists>r. (case SwigType_typedef_resolve tu ?s of
                  None \<Rightarrow> Some (Inr (na2, b2))
                | Some ctype' \<Rightarrow>
                    search_ctypes tu (scope_at st ts) cname tmop isarr ctype' False na2 b2) = Some r \<and> backup_set r"
  proof -
    fix na2 b2 assume b2: "b2 \<noteq> (None :: doh option)"
    show "\<exists>r. (case SwigType_typedef_resolve tu ?s of
                  None \<Rightarrow> Some (Inr (na2, b2))
                | Some ctype' \<Rightarrow>
                    search_ctypes tu (scope_at st ts) cname tmop isarr ctype' False na2 b2) = Some r \<and> backup_set r"
    proof (cases "SwigType_typedef_resolve tu ?s")
      case None
      with b2 show ?thesis by (simp add: backup_set_def)
    next
      case (Some t')
      with assms(1) n' have "resolves tu n' t'" by simp
      from search_ctypes_total[OF this b2] Some show ?thesis by simp
    qed
  qed
  have "\<exists>r. search_ctypes tu (scope_at st ts) cname tmop isarr T False na b = Some r \<and> backup_set r"
  proof (cases "?s \<noteq> T")
    case True
    show ?thesis
    proof (cases "probe_ctype tu (scope_at st ts) cname tmop isarr ?s na1 b1")
      case (Inl x)
      then have "search_ctypes tu (scope_at st ts) cname tmop isarr ?s True na1 b1 = Some (Inl x)"
        by (subst search_ctypes.simps) simp
      with Inr nb True show ?thesis
        by (subst search_ctypes.simps) (simp add: backup_set_def)
    next
      case (Inr nb2)
      obtain na2 b2 where nb2: "nb2 = (na2, b2)" by (cases nb2)
      have b2: "b2 \<noteq> None" using probe_ctype_backup[OF Inr[unfolded nb2] b1] .
      have "search_ctypes tu (scope_at st ts) cname tmop isarr ?s True na1 b1 =
              (case SwigType_typedef_resolve tu ?s of
                  None \<Rightarrow> Some (Inr (na2, b2))
                | Some ctype' \<Rightarrow>
                    search_ctypes tu (scope_at st ts) cname tmop isarr ctype' False na2 b2)"
        using Inr nb2 by (subst search_ctypes.simps) simp
      with tail[OF b2, of na2]
        \<open>probe_ctype tu (scope_at st ts) cname tmop isarr T na b = Inr nb\<close> nb True
      show ?thesis
        by (subst search_ctypes.simps) simp
    qed
  next
    case False
    then have eq: "?s = T" by simp
    have "search_ctypes tu (scope_at st ts) cname tmop isarr T False na b =
              (case SwigType_typedef_resolve tu T of
                  None \<Rightarrow> Some (Inr (na1, b1))
                | Some ctype' \<Rightarrow>
                    search_ctypes tu (scope_at st ts) cname tmop isarr ctype' False na1 b1)"
      using Inr nb eq by (subst search_ctypes.simps) simp
    with tail[OF b1, of na1] eq show ?thesis by simp
  qed
  then obtain r where r: "search_ctypes tu (scope_at st ts) cname tmop isarr T False na b = Some r"
    "backup_set r" by blast
  show ?thesis
  proof (cases r)
    case (Inl x)
    with r assms(2) show ?thesis by (subst search_scopes.simps) simp
  next
    case (Inr nb3)
    obtain na3 b3 where nb3: "nb3 = (na3, b3)" by (cases nb3)
    with Inr r(2) have b3: "b3 \<noteq> None" by (simp add: backup_set_def)
    from search_scopes_backup[OF assms(1) b3, of st cname tmop isarr "ts - 1" na3]
    obtain x where "search_scopes tu st cname tmop T isarr (ts - 1) na3 b3 = Some (Some x)"
      by blast
    with Inr nb3 r assms(2) show ?thesis
      by (subst search_scopes.simps) (auto split: option.splits)
  qed
qed

lemma search_exists:
  assumes "0 \<le> tm_scope st" "resolves tu n T"
    and "typemap_entry st T name (tmop_name op) \<noteq> None"
  shows "\<exists>x. Swig_typemap_search tu st op T name = Some (Some x)"
proof -
  from assms(3) obtain tm where tm: "Getattr_p (scope_at st (tm_scope st)) T = Some tm"
    "node_entry tm (norm_name name) (tmop_name op) \<noteq> None"
    by (auto simp: typemap_entry_norm[OF assms(1)] split: option.splits)
  show ?thesis
    unfolding Swig_typemap_search_def
    using search_scopes_found[OF assms(2,1) tm]
    by (simp add: norm_name_def)
qed

lemma search_multi_chain:
  assumes "ps \<noteq> []"
    and "\<forall>i<length ps - 1. \<exists>x. Swig_typemap_search tu st (foldl newop op (take i ps))
            (p_type (ps ! i)) (p_name (ps ! i)) = Some (Some x)"
    and "Swig_typemap_search tu st (foldl newop op (butlast ps))
            (p_type (last ps)) (p_name (last ps)) = Some (Some e)"
    and "has_code e"
  shows "Swig_typemap_search_multi tu st op ps nm = Some (Some e, int (length ps))"
  using assms(1,2,3)
proof (induction ps arbitrary: op)
  case Nil
  then show ?case by simp
next
  case (Cons p np)
  show ?case
  proof (cases "np = []")
    case True
    with Cons.prems(3) assms(4) show ?thesis by simp
  next
    case False
    from Cons.prems(2) False have "\<exists>x. Swig_typemap_search tu st (foldl newop op (take 0 (p # np)))
            (p_type ((p # np) ! 0)) (p_name ((p # np) ! 0)) = Some (Some x)"
      by (metis length_greater_0_conv length_Cons diff_Suc_1)
    then obtain x where x: "Swig_typemap_search tu st op (p_type p) (p_name p) = Some (Some x)"
      by auto
    have a2: "\<forall>i<length np - 1. \<exists>x. Swig_typemap_search tu st (foldl newop (newop op p) (take i np))
            (p_type (np ! i)) (p_name (np ! i)) = Some (Some x)"
    proof (intro allI impI)
      fix i assume i: "i < length np - 1"
      then have "Suc i < length (p # np) - 1" by simp
      with Cons.prems(2) have "\<exists>x. Swig_typemap_search tu st (foldl newop op (take (Suc i) (p # np)))
            (p_type ((p # np) ! Suc i)) (p_name ((p # np) ! Suc i)) = Some (Some x)"
        by blast
      then show "\<exists>x. Swig_typemap_search tu st (foldl newop (newop op p) (take i np))
            (p_type (np ! i)) (p_name (np ! i)) = Some (Some x)" by simp
    qed
    have a3: "Swig_typemap_search tu st (foldl newop (newop op p) (butlast np))
            (p_type (last np)) (p_name (last np)) = Some (Some e)"
      using Cons.prems(3) False by simp
    from Cons.IH[OF False a2 a3]
    have "Swig_typemap_search_multi tu st (newop op p) np nm = Some (Some e, int (length np))" .
    with x assms(4) show ?thesis by simp
  qed
qed

lemma foldl_newop:
  "foldl newop op ps =
     op @ concat (map (\<lambda>p. ''-'' @ p_type p @ ''+'' @ fmt_s (p_name p) @ '':'') ps)"
  by (induction ps arbitrary: op) (simp_all add: newop_def)


lemma has_code_iff: "Getattr e ''code'' = Some v \<Longrightarrow> has_code e"
  by (simp add: has_code_def)

text \<open>
  C1, as amended: in a well-formed store, after the registration of a rule with code
  \<open>c\<close> on a non-empty parameter list whose types are not the key of the %except
  directive and whose names are absent or non-empty, the search on the type and name of
  the last parameter, under the operator followed by the signature of the parameters
  before it, returns an entry whose code is \<open>c\<close>. For a list of one parameter this is
  the search on that parameter under the operator itself.
\<close>

theorem register_then_search:
  assumes "store_ok st"
    and "\<forall>p\<in>set parms. p_type p \<noteq> ''*except*'' \<and> p_name p \<noteq> Some []"
    and "parms \<noteq> []"
  shows "\<exists>e. Swig_typemap_search tu (Swig_typemap_register_multi tu st op parms c L K)
               (foldl newop op (butlast parms)) (p_type (last parms)) (p_name (last parms))
             = Some (Some e) \<and>
             Getattr e ''code'' = Some (DStr c)"
proof -
  let ?st' = "Swig_typemap_register_multi tu st op parms c L K"
  from register_multi_last[OF assms, of tu op c L K]
  obtain e where e: "typemap_entry ?st' (p_type (last parms)) (p_name (last parms))
                (tmop_name (foldl newop op (butlast parms))) = Some e"
    "Getattr e ''code'' = Some (DStr c)" by blast
  have "0 \<le> tm_scope ?st'"
    using register_multi_ok[of st parms tu op c L K] assms(1,2) by (simp add: store_ok_def)
  from search_top_hit[OF this e(1) has_code_iff[OF e(2)]] e(2) show ?thesis by blast
qed

theorem register_then_search_witness:
  "store_ok Swig_typemap_init \<and>
   (\<exists>e. Swig_typemap_search example_typeutils
          (Swig_typemap_register_multi example_typeutils Swig_typemap_init ''in''
             [\<lparr>p_type = ''int'', p_name = Some ''x'', p_lname = None, p_value = None\<rparr>]
             ''$1 = PyInt_AsLong($input);'' [] [])
          ''in'' ''int'' (Some ''x'') = Some (Some e) \<and>
        Getattr e ''code'' = Some (DStr ''$1 = PyInt_AsLong($input);'')) \<and>
   (\<exists>e. Swig_typemap_search example_typeutils
          (Swig_typemap_register_multi example_typeutils Swig_typemap_init ''in''
             [\<lparr>p_type = ''int'', p_name = Some ''argc'', p_lname = None, p_value = None\<rparr>,
              \<lparr>p_type = ''p.p.char'', p_name = Some ''argv'', p_lname = None, p_value = None\<rparr>]
             ''CODE'' [] [])
          ''in-int+argc:'' ''p.p.char'' (Some ''argv'') = Some (Some e) \<and>
        Getattr e ''code'' = Some (DStr ''CODE''))"
  using register_then_search[OF store_ok_init, of
      "[\<lparr>p_type = ''int'', p_name = Some ''x'', p_lname = None, p_value = None\<rparr>]"
      example_typeutils "''in''" "''$1 = PyInt_AsLong($input);''" "[]" "[]"]
    register_then_search[OF store_ok_init, of
      "[\<lparr>p_type = ''int'', p_name = Some ''argc'', p_lname = None, p_value = None\<rparr>,
        \<lparr>p_type = ''p.p.char'', p_name = Some ''argv'', p_lname = None, p_value = None\<rparr>]"
      example_typeutils "''in''" "''CODE''" "[]" "[]"]
    store_ok_init
  by (simp add: newop_def fmt_s_def)

text \<open>
  The claim C1 as stated fails on a list of two parameters: the search on the first
  parameter under the plain operator returns the node made on the way to the last
  parameter, which has no code.
\<close>

theorem register_then_search_counterexample:
  "Swig_typemap_search example_typeutils
     (Swig_typemap_register_multi example_typeutils Swig_typemap_init ''in''
        [\<lparr>p_type = ''int'', p_name = Some ''argc'', p_lname = None, p_value = None\<rparr>,
         \<lparr>p_type = ''p.p.char'', p_name = Some ''argv'', p_lname = None, p_value = None\<rparr>]
        ''CODE'' [] [])
     ''in'' ''int'' (Some ''argc'') = Some (Some (DHash [])) \<and>
   Getattr (DHash []) ''code'' = None"
proof -
  define st where "st = Swig_typemap_register_multi example_typeutils Swig_typemap_init ''in''
        [\<lparr>p_type = ''int'', p_name = Some ''argc'', p_lname = None, p_value = None\<rparr>,
         \<lparr>p_type = ''p.p.char'', p_name = Some ''argv'', p_lname = None, p_value = None\<rparr>]
        ''CODE'' [] []"
  have ts: "tm_scope st = 0"
    unfolding st_def by code_simp
  have arr: "SwigType_isarray example_typeutils ''int'' = False"
    by code_simp
  have p1: "probe_ctype example_typeutils (scope_at st 0) (Some ''argc'') (tmop_name ''in'')
              False ''int'' None None = Inr (None, Some (DHash []))"
    unfolding st_def by code_simp
  have sq: "SwigType_strip_qualifiers example_typeutils ''int'' = ''int''"
    by code_simp
  have td: "SwigType_typedef_resolve example_typeutils ''int'' = None"
    by code_simp
  have pd: "probe_default
              (Getattr_p (scope_at st 0) (SwigType_default example_typeutils ''int''))
              (Some ''argc'') (tmop_name ''in'') = None"
    unfolding st_def by code_simp
  have inner: "search_ctypes example_typeutils (scope_at st 0) (Some ''argc'')
                 (tmop_name ''in'') False ''int'' False None None
               = Some (Inr (None, Some (DHash [])))"
    by (subst search_ctypes.simps) (simp add: p1 sq td)
  have below: "search_scopes example_typeutils st (Some ''argc'') (tmop_name ''in'') ''int''
                 False (- 1) None (Some (DHash [])) = Some (Some (DHash []))"
    by (subst search_scopes.simps) simp
  have "search_scopes example_typeutils st (Some ''argc'') (tmop_name ''in'') ''int''
                 False 0 None None = Some (Some (DHash []))"
    by (subst search_scopes.simps) (simp add: inner pd below)
  then have "Swig_typemap_search example_typeutils st ''in'' ''int'' (Some ''argc'')
             = Some (Some (DHash []))"
    by (simp add: Swig_typemap_search_def ts arr)
  then show ?thesis unfolding st_def by simp
qed










text \<open>
  C3, as amended: in a well-formed store, the registration of a rule on two or more
  parameters (types other than the key of the %except directive, names absent or
  non-empty) files the entry with the code at the node of the last parameter under the
  key \<^verbatim>\<open>tmap:op-T1+n1:-...\<close> built from the parameters before it. It writes no code on the
  way: at the node of every earlier parameter an entry exists under the key of the
  parameters before that one, and its code is what it was before the registration,
  none where there was none. When the typedef chains of the earlier types end,
  \<^verbatim>\<open>Swig_typemap_search_multi\<close> on the same list returns the entry of the last parameter
  and leaves the number of parameters in \<^verbatim>\<open>*nmatch\<close>.
\<close>

theorem register_multi_search_multi:
  assumes "store_ok st"
    and "\<forall>p\<in>set parms. p_type p \<noteq> ''*except*'' \<and> p_name p \<noteq> Some []"
    and "2 \<le> length parms"
    and "\<forall>p\<in>set (butlast parms). \<exists>n. resolves tu n (p_type p)"
    and "st' = Swig_typemap_register_multi tu st op parms c L K"
  shows "\<exists>e. typemap_entry st' (p_type (last parms)) (p_name (last parms))
               (''tmap:'' @ op @
                concat (map (\<lambda>p. ''-'' @ p_type p @ ''+'' @ fmt_s (p_name p) @ '':'')
                          (butlast parms))) = Some e \<and>
             Getattr e ''code'' = Some (DStr c) \<and>
             Swig_typemap_search_multi tu st' op parms nm = Some (Some e, int (length parms)) \<and>
             (\<forall>i<length parms - 1.
                typemap_entry st' (p_type (parms ! i)) (p_name (parms ! i))
                  (''tmap:'' @ op @
                   concat (map (\<lambda>p. ''-'' @ p_type p @ ''+'' @ fmt_s (p_name p) @ '':'')
                             (take i parms))) \<noteq> None \<and>
                entry_code (typemap_entry st' (p_type (parms ! i)) (p_name (parms ! i))
                  (''tmap:'' @ op @
                   concat (map (\<lambda>p. ''-'' @ p_type p @ ''+'' @ fmt_s (p_name p) @ '':'')
                             (take i parms))))
                = entry_code (typemap_entry st (p_type (parms ! i)) (p_name (parms ! i))
                  (''tmap:'' @ op @
                   concat (map (\<lambda>p. ''-'' @ p_type p @ ''+'' @ fmt_s (p_name p) @ '':'')
                             (take i parms)))))"
proof -
  have ne: "parms \<noteq> []" using assms(3) by auto
  have key: "\<And>ps. ''tmap:'' @ op @
                concat (map (\<lambda>p. ''-'' @ p_type p @ ''+'' @ fmt_s (p_name p) @ '':'') ps)
             = tmop_name (foldl newop op ps)"
    by (simp add: foldl_newop tmop_name_def)
  from register_multi_last[OF assms(1,2) ne, of tu op c L K] assms(5)
  obtain e where e: "typemap_entry st' (p_type (last parms)) (p_name (last parms))
                (tmop_name (foldl newop op (butlast parms))) = Some e"
    "Getattr e ''code'' = Some (DStr c)" by blast
  have b: "0 \<le> tm_scope st'"
    using register_multi_ok[of st parms tu op c L K] assms(1,2,5) by (simp add: store_ok_def)
  have inner: "\<forall>i<length parms - 1.
         typemap_entry st' (p_type (parms ! i)) (p_name (parms ! i))
            (tmop_name (foldl newop op (take i parms))) \<noteq> None \<and>
         entry_code (typemap_entry st' (p_type (parms ! i)) (p_name (parms ! i))
            (tmop_name (foldl newop op (take i parms))))
         = entry_code (typemap_entry st (p_type (parms ! i)) (p_name (parms ! i))
            (tmop_name (foldl newop op (take i parms))))"
    using register_multi_inner[OF assms(1,2), of _ tu op c L K] assms(5) by blast
  have s1: "\<forall>i<length parms - 1. \<exists>x. Swig_typemap_search tu st' (foldl newop op (take i parms))
            (p_type (parms ! i)) (p_name (parms ! i)) = Some (Some x)"
  proof (intro allI impI)
    fix i assume i: "i < length parms - 1"
    then have "parms ! i \<in> set (butlast parms)"
      by (metis length_butlast nth_butlast nth_mem)
    with assms(4) obtain n where n: "resolves tu n (p_type (parms ! i))" by blast
    from inner i have "typemap_entry st' (p_type (parms ! i)) (p_name (parms ! i))
            (tmop_name (foldl newop op (take i parms))) \<noteq> None" by blast
    from search_exists[OF b n this]
    show "\<exists>x. Swig_typemap_search tu st' (foldl newop op (take i parms))
            (p_type (parms ! i)) (p_name (parms ! i)) = Some (Some x)" .
  qed
  have s2: "Swig_typemap_search tu st' (foldl newop op (butlast parms))
            (p_type (last parms)) (p_name (last parms)) = Some (Some e)"
    using search_top_hit[OF b e(1) has_code_iff[OF e(2)]] .
  have m: "Swig_typemap_search_multi tu st' op parms nm = Some (Some e, int (length parms))"
    using search_multi_chain[OF ne s1 s2 has_code_iff[OF e(2)]] .
  show ?thesis
    unfolding key using e m inner by blast
qed

theorem register_multi_search_multi_witness:
  "\<exists>e. typemap_entry
          (Swig_typemap_register_multi example_typeutils Swig_typemap_init ''in''
             [\<lparr>p_type = ''int'', p_name = Some ''argc'', p_lname = None, p_value = None\<rparr>,
              \<lparr>p_type = ''p.p.char'', p_name = Some ''argv'', p_lname = None, p_value = None\<rparr>]
             ''CODE'' [] [])
          ''p.p.char'' (Some ''argv'') ''tmap:in-int+argc:'' = Some e \<and>
       Getattr e ''code'' = Some (DStr ''CODE'') \<and>
       Swig_typemap_search_multi example_typeutils
          (Swig_typemap_register_multi example_typeutils Swig_typemap_init ''in''
             [\<lparr>p_type = ''int'', p_name = Some ''argc'', p_lname = None, p_value = None\<rparr>,
              \<lparr>p_type = ''p.p.char'', p_name = Some ''argv'', p_lname = None, p_value = None\<rparr>]
             ''CODE'' [] [])
          ''in''
          [\<lparr>p_type = ''int'', p_name = Some ''argc'', p_lname = None, p_value = None\<rparr>,
           \<lparr>p_type = ''p.p.char'', p_name = Some ''argv'', p_lname = None, p_value = None\<rparr>]
          0 = Some (Some e, 2) \<and>
       typemap_entry
          (Swig_typemap_register_multi example_typeutils Swig_typemap_init ''in''
             [\<lparr>p_type = ''int'', p_name = Some ''argc'', p_lname = None, p_value = None\<rparr>,
              \<lparr>p_type = ''p.p.char'', p_name = Some ''argv'', p_lname = None, p_value = None\<rparr>]
             ''CODE'' [] [])
          ''int'' (Some ''argc'') ''tmap:in'' \<noteq> None \<and>
       entry_code (typemap_entry
          (Swig_typemap_register_multi example_typeutils Swig_typemap_init ''in''
             [\<lparr>p_type = ''int'', p_name = Some ''argc'', p_lname = None, p_value = None\<rparr>,
              \<lparr>p_type = ''p.p.char'', p_name = Some ''argv'', p_lname = None, p_value = None\<rparr>]
             ''CODE'' [] [])
          ''int'' (Some ''argc'') ''tmap:in'') = None"
proof -
  define parms where "parms =
          [\<lparr>p_type = ''int'', p_name = Some ''argc'', p_lname = None, p_value = None\<rparr>,
           \<lparr>p_type = ''p.p.char'', p_name = Some ''argv'', p_lname = None, p_value = None\<rparr>]"
  define st' where "st' = Swig_typemap_register_multi example_typeutils Swig_typemap_init ''in''
             parms ''CODE'' [] []"
  have h2: "\<forall>p\<in>set parms. p_type p \<noteq> ''*except*'' \<and> p_name p \<noteq> Some []"
    by (simp add: parms_def)
  have h3: "2 \<le> length parms" by (simp add: parms_def)
  have r: "resolves example_typeutils (Suc 0) ''int''"
    by (simp add: example_typeutils_def)
  have h4: "\<forall>p\<in>set (butlast parms). \<exists>n. resolves example_typeutils n (p_type p)"
    by (simp add: parms_def) (rule exI[of _ "Suc 0"], rule r)
  have before: "entry_code (typemap_entry Swig_typemap_init ''int'' (Some ''argc'') ''tmap:in'')
                = None"
    by code_simp
  from register_multi_search_multi[OF store_ok_init h2 h3 h4 st'_def, of 0]
  obtain e where e: "typemap_entry st' (p_type (last parms)) (p_name (last parms))
               (''tmap:'' @ ''in'' @
                concat (map (\<lambda>p. ''-'' @ p_type p @ ''+'' @ fmt_s (p_name p) @ '':'')
                          (butlast parms))) = Some e"
    "Getattr e ''code'' = Some (DStr ''CODE'')"
    "Swig_typemap_search_multi example_typeutils st' ''in'' parms 0 = Some (Some e, int (length parms))"
    and inner: "\<forall>i<length parms - 1.
                typemap_entry st' (p_type (parms ! i)) (p_name (parms ! i))
                  (''tmap:'' @ ''in'' @
                   concat (map (\<lambda>p. ''-'' @ p_type p @ ''+'' @ fmt_s (p_name p) @ '':'')
                             (take i parms))) \<noteq> None \<and>
                entry_code (typemap_entry st' (p_type (parms ! i)) (p_name (parms ! i))
                  (''tmap:'' @ ''in'' @
                   concat (map (\<lambda>p. ''-'' @ p_type p @ ''+'' @ fmt_s (p_name p) @ '':'')
                             (take i parms))))
                = entry_code (typemap_entry Swig_typemap_init (p_type (parms ! i)) (p_name (parms ! i))
                  (''tmap:'' @ ''in'' @
                   concat (map (\<lambda>p. ''-'' @ p_type p @ ''+'' @ fmt_s (p_name p) @ '':'')
                             (take i parms))))"
    by blast
  from inner have "typemap_entry st' (p_type (parms ! 0)) (p_name (parms ! 0))
                  (''tmap:'' @ ''in'' @
                   concat (map (\<lambda>p. ''-'' @ p_type p @ ''+'' @ fmt_s (p_name p) @ '':'')
                             (take 0 parms))) \<noteq> None \<and>
                entry_code (typemap_entry st' (p_type (parms ! 0)) (p_name (parms ! 0))
                  (''tmap:'' @ ''in'' @
                   concat (map (\<lambda>p. ''-'' @ p_type p @ ''+'' @ fmt_s (p_name p) @ '':'')
                             (take 0 parms))))
                = entry_code (typemap_entry Swig_typemap_init (p_type (parms ! 0)) (p_name (parms ! 0))
                  (''tmap:'' @ ''in'' @
                   concat (map (\<lambda>p. ''-'' @ p_type p @ ''+'' @ fmt_s (p_name p) @ '':'')
                             (take 0 parms))))"
    using h3 by (intro inner[rule_format]) simp
  then have i0: "typemap_entry st' ''int'' (Some ''argc'') ''tmap:in'' \<noteq> None \<and>
                 entry_code (typemap_entry st' ''int'' (Some ''argc'') ''tmap:in'') = None"
    using before by (simp add: parms_def)
  from e have "typemap_entry st' ''p.p.char'' (Some ''argv'') ''tmap:in-int+argc:'' = Some e \<and>
       Getattr e ''code'' = Some (DStr ''CODE'') \<and>
       Swig_typemap_search_multi example_typeutils st' ''in'' parms 0 = Some (Some e, 2)"
    by (simp add: parms_def fmt_s_def)
  with i0 show ?thesis unfolding st'_def parms_def by blast
qed

text \<open>
  The claim C3 as stated fails where the node of an earlier parameter is also the node
  of a rule on fewer parameters: after a rule with the code \<^verbatim>\<open>S\<close> on \<^verbatim>\<open>(int argc)\<close> and a
  rule on \<^verbatim>\<open>(int argc, char **argv)\<close>, the entry of the first parameter under \<^verbatim>\<open>tmap:in\<close>
  is the entry of the first rule and carries \<^verbatim>\<open>S\<close>.
\<close>

theorem register_multi_shared_node_counterexample:
  "entry_code
     (typemap_entry
        (Swig_typemap_register_multi example_typeutils
           (Swig_typemap_register_multi example_typeutils Swig_typemap_init ''in''
              [\<lparr>p_type = ''int'', p_name = Some ''argc'', p_lname = None, p_value = None\<rparr>]
              ''S'' [] [])
           ''in''
           [\<lparr>p_type = ''int'', p_name = Some ''argc'', p_lname = None, p_value = None\<rparr>,
            \<lparr>p_type = ''p.p.char'', p_name = Some ''argv'', p_lname = None, p_value = None\<rparr>]
           ''M'' [] [])
        ''int'' (Some ''argc'') ''tmap:in'') = Some (DStr ''S'')"
  by code_simp



section \<open>Variable substitution: properties\<close>

text \<open>
  Occurrences in a string and what \<^verbatim>\<open>Replace\<close> does to them: a replacement that took
  place leaves the new text in the string, and an occurrence of a text that no match of
  the token can overlap is still there afterwards.
\<close>

lemma strstr_iff: "strstr s t \<longleftrightarrow> (\<exists>a b. s = a @ t @ b)"
proof (induction s)
  case Nil
  show ?case by auto
next
  case (Cons c cs)
  show ?case
  proof
    assume "strstr (c # cs) t"
    then consider "prefix t (c # cs)" | "strstr cs t" by auto
    then show "\<exists>a b. c # cs = a @ t @ b"
    proof cases
      case 1
      then obtain b where "c # cs = t @ b" by (auto simp: prefix_def)
      then have "c # cs = [] @ t @ b" by simp
      then show ?thesis by blast
    next
      case 2
      with Cons.IH obtain a b where "cs = a @ t @ b" by blast
      then have "c # cs = (c # a) @ t @ b" by simp
      then show ?thesis by blast
    qed
  next
    assume "\<exists>a b. c # cs = a @ t @ b"
    then obtain a b where ab: "c # cs = a @ t @ b" by blast
    show "strstr (c # cs) t"
    proof (cases a)
      case Nil
      with ab have "prefix t (c # cs)" by (simp add: prefix_def)
      then show ?thesis by simp
    next
      case (Cons x a')
      with ab have "cs = a' @ t @ b" by simp
      with Cons.IH have "strstr cs t" by blast
      then show ?thesis by simp
    qed
  qed
qed













lemma strstr_Nil [simp]: "strstr s []"
proof -
  have "s = [] @ [] @ s" by simp
  then show ?thesis unfolding strstr_iff by blast
qed





lemma set_digits: "set (digits n) \<subseteq> set ''0123456789''"
proof (induction n rule: digits.induct)
  case (1 n)
  have m: "''0123456789'' ! (n mod 10) \<in> set ''0123456789''"
    by (rule nth_mem) simp
  show ?case
  proof (cases "n < 10")
    case True
    then have "''0123456789'' ! n \<in> set ''0123456789''" by (intro nth_mem) simp
    with True show ?thesis by (subst digits.simps) simp
  next
    case False
    with "1.IH" m show ?thesis by (subst digits.simps) simp
  qed
qed

lemma set_fmt_d: "set (fmt_d i) \<subseteq> set ''-0123456789''"
proof (cases "i < 0")
  case True
  with set_digits[of "nat (- i)"] show ?thesis
    by (simp add: fmt_d_def subset_insertI2)
next
  case False
  with set_digits[of "nat i"] show ?thesis
    by (simp add: fmt_d_def subset_insertI2)
qed

lemma fmt_d_no_dollar [simp]: "CHR ''$'' \<notin> set (fmt_d i)"
proof
  assume "CHR ''$'' \<in> set (fmt_d i)"
  with set_fmt_d[of i] have "CHR ''$'' \<in> set ''-0123456789''" by blast
  then show False by simp
qed

lemma fmt_d_no_S [simp]: "CHR ''S'' \<notin> set (fmt_d i)"
proof
  assume "CHR ''S'' \<in> set (fmt_d i)"
  with set_fmt_d[of i] have "CHR ''S'' \<in> set ''-0123456789''" by blast
  then show False by simp
qed

lemma fmt_d_1 [simp]: "fmt_d 1 = ''1''"
  by (simp add: fmt_d_def digits.simps)









































end
